theory Spec2Isabelle
  imports Main "HOL-Library.Multiset"
begin

section \<open>Data model\<close>

text \<open>
  The Task schema (backend/models/Task.js): the \<open>status\<close> enum is
  \<open>['todo', 'inprogress', 'done']\<close>; \<open>order\<close> is a Number (the \<open>min: 0\<close> validator runs on
  save only, the update operators used by the reorder route bypass it, hence \<open>int\<close>).
  \<open>tid\<close> is the document's \<open>_id\<close>. Timestamps are milliseconds.
\<close>

datatype status = Todo | Inprogress | Done

type_synonym oid = string

record task =
  tid :: oid
  projectId :: oid
  title :: string
  description :: string
  status :: status
  order :: int
  createdAt :: nat
  updatedAt :: nat

text \<open>
  The database: the \<open>Project\<close> collection (only the ids matter to the routes modelled here)
  and the \<open>Task\<close> collection in its natural order.
\<close>

record database =
  Project :: "oid list"
  Task :: "task list"

text \<open>
  The body of \<open>PATCH /api/projects/:id/tasks/reorder\<close>. The validation chain
  (\<open>reorderValidation\<close>) admits exactly a Mongo id, two statuses of the enum and a
  non-negative integer index; the types below admit the same values. The client also sends
  \<open>sourceIndex\<close>, which the route never reads. \<open>taskId\<close> is the id as the database prints
  it (\<open>_id.toString()\<close>, lower-case hexadecimal), which is what the client sends: it copies
  \<open>draggableId\<close> from a task it loaded. \<open>isMongoId\<close> also admits the same id in upper
  case; the queries cast it to the same id while the \<open>findIndex\<close> of the in-column branch
  compares strings, so that spelling is answered \<open>REORDER_ERROR\<close> there. Requests in that
  spelling are outside the model.
\<close>

record reorderData =
  taskId :: oid
  sourceStatus :: status
  destinationStatus :: status
  sourceIndex :: nat
  destinationIndex :: nat

text \<open>The error codes the two routes answer with (404, 404 and 500).\<close>

datatype error = PROJECT_NOT_FOUND | TASK_NOT_FOUND | REORDER_ERROR

section \<open>Array and collection primitives\<close>

text \<open>\<open>Array.prototype.findIndex\<close>; \<open>None\<close> stands for the result \<open>-1\<close>.\<close>

fun findIndex :: "('a \<Rightarrow> bool) \<Rightarrow> 'a list \<Rightarrow> nat option" where
  "findIndex P [] = None"
| "findIndex P (x # xs) =
     (if P x then Some 0 else (case findIndex P xs of None \<Rightarrow> None | Some i \<Rightarrow> Some (Suc i)))"

text \<open>\<open>xs.splice(i, 1)\<close> for \<open>0 \<le> i\<close>: the array without its element at \<open>i\<close>.\<close>

definition splice_remove :: "nat \<Rightarrow> 'a list \<Rightarrow> 'a list" where
  "splice_remove i xs = take i xs @ drop (Suc i) xs"

text \<open>
  \<open>xs.splice(i, 0, x)\<close> for \<open>0 \<le> i\<close>: JavaScript clamps the start index to the length
  of the array, as \<open>take\<close> and \<open>drop\<close> do.
\<close>

definition splice_insert :: "nat \<Rightarrow> 'a \<Rightarrow> 'a list \<Rightarrow> 'a list" where
  "splice_insert i x xs = take i xs @ x # drop i xs"

text \<open>\<open>Task.find({ projectId, status })\<close>: the documents of one column of one project.\<close>

definition column :: "oid \<Rightarrow> status \<Rightarrow> task list \<Rightarrow> task list" where
  "column pid st ts = filter (\<lambda>t. projectId t = pid \<and> status t = st) ts"

text \<open>\<open>Task.find({ projectId, status }).sort({ order: 1 })\<close> (a stable sort on \<open>order\<close>).\<close>

definition find_sorted :: "oid \<Rightarrow> status \<Rightarrow> task list \<Rightarrow> task list" where
  "find_sorted pid st ts = sort_key order (column pid st ts)"

text \<open>\<open>Task.findOne({ _id: taskId, projectId })\<close>.\<close>

definition findOne :: "oid \<Rightarrow> oid \<Rightarrow> task list \<Rightarrow> task option" where
  "findOne i pid ts = find (\<lambda>t. tid t = i \<and> projectId t = pid) ts"

text \<open>\<open>Task.findById(taskId)\<close>.\<close>

definition findById :: "oid \<Rightarrow> task list \<Rightarrow> task option" where
  "findById i ts = find (\<lambda>t. tid t = i) ts"

text \<open>
  \<open>updateOne\<close> and \<open>findByIdAndUpdate\<close> change the first document that matches the filter
  and no other.
\<close>

fun update_first :: "(task \<Rightarrow> bool) \<Rightarrow> (task \<Rightarrow> task) \<Rightarrow> task list \<Rightarrow> task list" where
  "update_first P f [] = []"
| "update_first P f (t # ts) = (if P t then f t # ts else t # update_first P f ts)"

definition findByIdAndUpdate :: "oid \<Rightarrow> (task \<Rightarrow> task) \<Rightarrow> task list \<Rightarrow> task list" where
  "findByIdAndUpdate i f ts = update_first (\<lambda>t. tid t = i) f ts"

text \<open>\<open>updateMany\<close> changes every document that matches the filter.\<close>

definition updateMany :: "(task \<Rightarrow> bool) \<Rightarrow> (task \<Rightarrow> task) \<Rightarrow> task list \<Rightarrow> task list" where
  "updateMany P f ts = map (\<lambda>t. if P t then f t else t) ts"

text \<open>
  One entry of \<open>bulkOps\<close>: \<open>{ updateOne: { filter: { _id }, update: { order, updatedAt } } }\<close>,
  and \<open>Task.bulkWrite\<close>, which applies the entries in sequence. The schema has
  \<open>timestamps: true\<close>: on every update mongoose drops the \<open>updatedAt\<close> the caller names
  and stores the time of the write instead, one time \<open>now\<close> for a whole \<open>bulkWrite\<close>.
\<close>

record updateOne =
  filter_id :: oid
  set_order :: int
  set_updatedAt :: nat

definition apply_updateOne :: "nat \<Rightarrow> updateOne \<Rightarrow> task list \<Rightarrow> task list" where
  "apply_updateOne now u ts =
     update_first (\<lambda>t. tid t = filter_id u)
       (\<lambda>t. t\<lparr>order := set_order u, updatedAt := now\<rparr>) ts"

definition bulkWrite :: "nat \<Rightarrow> updateOne list \<Rightarrow> task list \<Rightarrow> task list" where
  "bulkWrite now ops ts = fold (apply_updateOne now) ops ts"

section \<open>The reorder route\<close>

text \<open>
  \<open>router.patch('/:id/tasks/reorder')\<close>. \<open>clock k\<close> is the value of the \<open>k\<close>-th call of
  \<open>Date.now()\<close> made by the request; a write happens at the time the route read last, so
  the time mongoose stores is the value of the latest call: that of the same update in the
  cross-column branch, that of the last entry of \<open>bulkOps\<close> in the in-column branch. The
  result pairs the response (an error code, or the
  \<open>data\<close> of the success response: the document \<open>findById\<close> returns, \<open>null\<close> being
  \<open>None\<close>) with the database the request leaves behind. The in-column branch throws when
  the task is not in the column it read, and the route's \<open>catch\<close> answers
  \<open>REORDER_ERROR\<close>. The operations of the database are total here: a failure of the
  database itself is outside the model.
\<close>

definition bulkOps :: "(nat \<Rightarrow> nat) \<Rightarrow> task list \<Rightarrow> updateOne list" where
  "bulkOps clock tasksInColumn =
     map (\<lambda>(index, t). \<lparr>filter_id = tid t, set_order = int index, set_updatedAt = clock index\<rparr>)
       (enumerate 0 tasksInColumn)"

definition reorder_same_column ::
  "(nat \<Rightarrow> nat) \<Rightarrow> oid \<Rightarrow> reorderData \<Rightarrow> database \<Rightarrow> (error + task option) \<times> database" where
  "reorder_same_column clock pid req db =
     (let tasksInColumn = find_sorted pid (sourceStatus req) (Task db) in
      case findIndex (\<lambda>t. tid t = taskId req) tasksInColumn of
        None \<Rightarrow> (Inl REORDER_ERROR, db)
      | Some currentIndex \<Rightarrow>
          (let movedTask = tasksInColumn ! currentIndex;
               removed = splice_remove currentIndex tasksInColumn;
               inserted = splice_insert (destinationIndex req) movedTask removed;
               ts' = bulkWrite (clock (length inserted - 1)) (bulkOps clock inserted) (Task db)
           in (Inr (findById (taskId req) ts'), db\<lparr>Task := ts'\<rparr>)))"

definition reorder_cross_column ::
  "(nat \<Rightarrow> nat) \<Rightarrow> oid \<Rightarrow> reorderData \<Rightarrow> task \<Rightarrow> database \<Rightarrow> (error + task option) \<times> database" where
  "reorder_cross_column clock pid req task db =
     (let ts1 = findByIdAndUpdate (taskId req)
                  (\<lambda>t. t\<lparr>status := destinationStatus req,
                         order := int (destinationIndex req),
                         updatedAt := clock 0\<rparr>) (Task db);
          ts2 = updateMany
                  (\<lambda>t. projectId t = pid \<and> status t = sourceStatus req \<and> order t > order task)
                  (\<lambda>t. t\<lparr>order := order t - 1, updatedAt := clock 1\<rparr>) ts1;
          ts3 = updateMany
                  (\<lambda>t. projectId t = pid \<and> status t = destinationStatus req
                        \<and> order t \<ge> int (destinationIndex req) \<and> tid t \<noteq> taskId req)
                  (\<lambda>t. t\<lparr>order := order t + 1, updatedAt := clock 2\<rparr>) ts2
      in (Inr (findById (taskId req) ts3), db\<lparr>Task := ts3\<rparr>))"

definition reorder ::
  "(nat \<Rightarrow> nat) \<Rightarrow> oid \<Rightarrow> reorderData \<Rightarrow> database \<Rightarrow> (error + task option) \<times> database" where
  "reorder clock pid req db =
     (if pid \<notin> set (Project db) then (Inl PROJECT_NOT_FOUND, db)
      else case findOne (taskId req) pid (Task db) of
        None \<Rightarrow> (Inl TASK_NOT_FOUND, db)
      | Some task \<Rightarrow>
          if sourceStatus req = destinationStatus req
          then reorder_same_column clock pid req db
          else reorder_cross_column clock pid req task db)"

section \<open>Task creation\<close>




section \<open>The client's drag handler\<close>

text \<open>
  \<open>handleDragEnd\<close> of the ProjectBoard page. The drop result of the drag-and-drop library
  names the source and, when the card was dropped on a column, the destination.
\<close>

record location =
  droppableId :: status
  index :: nat

record dropResult =
  destination :: "location option"
  source :: location
  draggableId :: oid

text \<open>The component state the handler reads and writes.\<close>

record board =
  tasks :: "task list"
  dragInProgress :: bool

text \<open>How an awaited call of the API ended.\<close>

datatype 'a promise = Rejected | Resolved 'a

text \<open>
  What one run of the handler did: the list it rendered optimistically (if it got that far),
  the request it sent (if any), and the component state once the handler has returned.
\<close>

record run =
  optimistic :: "task list option"
  sent :: "reorderData option"
  final :: board

text \<open>
  \<open>reorderTasks\<close> is the outcome of \<open>projectsAPI.reorderTasks\<close> (an error response, a
  timeout and a transport failure all reject the promise) and \<open>getTasks\<close> that of the
  reload \<open>projectsAPI.getTasks\<close>, whose \<open>data\<close> may be missing. \<open>splice(-1, 1)\<close>, which
  \<open>findIndex\<close> cannot cause here, removes the last element.
\<close>

definition handleDragEnd ::
  "dropResult \<Rightarrow> unit promise \<Rightarrow> task list option promise \<Rightarrow> board \<Rightarrow> run" where
  "handleDragEnd result reorderTasks getTasks b =
     (let b0 = b\<lparr>dragInProgress := False\<rparr>;
          stop = \<lparr>optimistic = None, sent = None, final = b0\<rparr>
      in case destination result of
        None \<Rightarrow> stop
      | Some dest \<Rightarrow>
          if droppableId dest = droppableId (source result) \<and> index dest = index (source result)
          then stop
          else (case find (\<lambda>t. tid t = draggableId result) (tasks b) of
            None \<Rightarrow> stop
          | Some task \<Rightarrow>
              (let originalTasks = tasks b;
                   newTasks = (case findIndex (\<lambda>t. tid t = draggableId result) (tasks b) of
                                 None \<Rightarrow> butlast (tasks b)
                               | Some taskIndex \<Rightarrow> splice_remove taskIndex (tasks b));
                   updatedTask = task\<lparr>status := droppableId dest\<rparr>;
                   destinationTasks = filter (\<lambda>t. status t = droppableId dest) newTasks;
                   insertIndex = index dest;
                   allTasksBeforeDestination =
                     filter (\<lambda>t. status t \<noteq> droppableId dest) newTasks;
                   finalTasks = allTasksBeforeDestination @ take insertIndex destinationTasks
                                  @ [updatedTask] @ drop insertIndex destinationTasks;
                   data = \<lparr>taskId = draggableId result,
                           sourceStatus = droppableId (source result),
                           destinationStatus = droppableId dest,
                           sourceIndex = index (source result),
                           destinationIndex = index dest\<rparr>
               in \<lparr>optimistic = Some finalTasks, sent = Some data,
                   final =
                     (case reorderTasks of
                        Rejected \<Rightarrow> b0\<lparr>tasks := originalTasks\<rparr>
                      | Resolved _ \<Rightarrow>
                          (case getTasks of
                             Rejected \<Rightarrow> b0\<lparr>tasks := originalTasks\<rparr>
                           | Resolved d \<Rightarrow>
                               b0\<lparr>tasks := (case d of None \<Rightarrow> [] | Some ts \<Rightarrow> ts)\<rparr>))\<rparr>)))"

section \<open>Dense columns\<close>

text \<open>
  A column is dense when its tasks, sorted by \<open>order\<close>, carry exactly the orders
  \<open>0, 1, ..., n - 1\<close>. A project is dense when its three columns are.
\<close>

definition dense :: "oid \<Rightarrow> status \<Rightarrow> task list \<Rightarrow> bool" where
  "dense pid st ts =
     (map order (find_sorted pid st ts) = map int [0..<length (column pid st ts)])"

definition dense_project :: "oid \<Rightarrow> task list \<Rightarrow> bool" where
  "dense_project pid ts = (dense pid Todo ts \<and> dense pid Inprogress ts \<and> dense pid Done ts)"

text \<open>A task without its last-modified timestamp, and without anything but its frame.\<close>

definition untimed :: "task \<Rightarrow> task" where
  "untimed t = t\<lparr>updatedAt := 0\<rparr>"

definition frame :: "task \<Rightarrow> oid \<times> oid \<times> string \<times> string \<times> nat" where
  "frame t = (tid t, projectId t, title t, description t, createdAt t)"

text \<open>Where a task sits: its id, column and order.\<close>

definition place :: "task \<Rightarrow> oid \<times> status \<times> int" where
  "place t = (tid t, status t, order t)"

section \<open>Scenarios\<close>

text \<open>A task with the given id, column and order in project \<open>''p''\<close>, the other fields fixed.\<close>

definition mk :: "oid \<Rightarrow> status \<Rightarrow> int \<Rightarrow> task" where
  "mk i st k = \<lparr>tid = i, projectId = ''p'', title = i, description = [], status = st,
               order = k, createdAt = 0, updatedAt = 0\<rparr>"

definition tick :: "nat \<Rightarrow> nat" where
  "tick k = 100 + k"

definition todo3 :: database where
  "todo3 = \<lparr>Project = [''p''], Task = [mk ''T1'' Todo 0, mk ''T2'' Todo 1, mk ''T3'' Todo 2]\<rparr>"

text \<open>The fixture of the route's tests: two tasks in todo, one in progress.\<close>

definition fixture :: database where
  "fixture = \<lparr>Project = [''p''],
              Task = [mk ''T1'' Todo 0, mk ''T2'' Todo 1, mk ''T3'' Inprogress 0]\<rparr>"

definition req :: "oid \<Rightarrow> status \<Rightarrow> status \<Rightarrow> nat \<Rightarrow> reorderData" where
  "req i src dst k = \<lparr>taskId = i, sourceStatus = src, destinationStatus = dst,
                     sourceIndex = 0, destinationIndex = k\<rparr>"

text \<open>Two tasks in progress, and T1 in todo.\<close>

definition crowded :: database where
  "crowded = \<lparr>Project = [''p''],
              Task = [mk ''T1'' Todo 0, mk ''T3'' Inprogress 0, mk ''T4'' Inprogress 1]\<rparr>"

text \<open>A todo column left with a gap (as after deletions): its only task has order 5.\<close>

definition gap_db :: database where
  "gap_db = \<lparr>Project = [''p''], Task = [mk ''T9'' Todo 5]\<rparr>"

text \<open>The drop of the rollback scenario: T1 dragged from the top of todo to its end.\<close>

definition drop1 :: dropResult where
  "drop1 = \<lparr>destination = Some \<lparr>droppableId = Todo, index = 2\<rparr>,
            source = \<lparr>droppableId = Todo, index = 0\<rparr>, draggableId = ''T1''\<rparr>"

section \<open>Notions used in the proofs\<close>

text \<open>Membership in a column, the filter of \<open>column\<close>.\<close>

definition in_column :: "oid \<Rightarrow> status \<Rightarrow> task \<Rightarrow> bool" where
  "in_column pid st t = (projectId t = pid \<and> status t = st)"

text \<open>
  What \<open>bulkWrite\<close> and the three writes of the cross-column branch do to one document,
  when ids are unique.
\<close>

definition apply_op :: "nat \<Rightarrow> updateOne \<Rightarrow> task \<Rightarrow> task" where
  "apply_op now u t =
     (if tid t = filter_id u then t\<lparr>order := set_order u, updatedAt := now\<rparr> else t)"

definition apply_ops :: "nat \<Rightarrow> updateOne list \<Rightarrow> task \<Rightarrow> task" where
  "apply_ops now ops t = fold (apply_op now) ops t"

definition moved :: "(nat \<Rightarrow> nat) \<Rightarrow> oid \<Rightarrow> reorderData \<Rightarrow> task \<Rightarrow> task \<Rightarrow> task" where
  "moved clock pid r task t =
     (let t1 = (if tid t = taskId r
                then t\<lparr>status := destinationStatus r, order := int (destinationIndex r),
                       updatedAt := clock 0\<rparr>
                else t);
          t2 = (if projectId t1 = pid \<and> status t1 = sourceStatus r \<and> order t1 > order task
                then t1\<lparr>order := order t1 - 1, updatedAt := clock 1\<rparr> else t1)
      in if projectId t2 = pid \<and> status t2 = destinationStatus r
            \<and> order t2 \<ge> int (destinationIndex r) \<and> tid t2 \<noteq> taskId r
         then t2\<lparr>order := order t2 + 1, updatedAt := clock 2\<rparr> else t2)"

section \<open>Evaluation rules\<close>

lemmas model_defs =
  reorder_def reorder_same_column_def reorder_cross_column_def bulkOps_def bulkWrite_def
  apply_updateOne_def updateMany_def findByIdAndUpdate_def findById_def findOne_def
  find_sorted_def column_def splice_insert_def splice_remove_def enumerate_eq_zip Let_def

lemmas scenario_defs =
  mk_def tick_def todo3_def fixture_def req_def crowded_def gap_db_def drop1_def

section \<open>Arrays, sorting and multisets\<close>

lemma findIndex_Some:
  "findIndex P xs = Some i \<Longrightarrow> i < length xs \<and> P (xs ! i) \<and> (\<forall>j<i. \<not> P (xs ! j))"
proof (induction xs arbitrary: i)
  case Nil then show ?case by simp
next
  case (Cons x xs)
  show ?case
  proof (cases "P x")
    case True with Cons.prems show ?thesis by simp
  next
    case False
    with Cons.prems obtain k where k: "findIndex P xs = Some k" "i = Suc k"
      by (auto split: option.splits)
    from Cons.IH[OF k(1)] False k(2) show ?thesis
      by (auto simp: nth_Cons split: nat.splits)
  qed
qed

lemma findIndex_None: "findIndex P xs = None \<longleftrightarrow> (\<forall>x\<in>set xs. \<not> P x)"
  by (induction xs) (auto split: option.splits)

lemma mset_splice_insert: "mset (splice_insert k x ys) = add_mset x (mset ys)"
proof -
  have "mset (take k ys) + mset (drop k ys) = mset ys"
    by (metis append_take_drop_id mset_append)
  then show ?thesis by (simp add: splice_insert_def)
qed

lemma mset_splice:
  assumes "i < length xs"
  shows "mset (splice_insert k (xs ! i) (splice_remove i xs)) = mset xs"
proof -
  have "add_mset (xs ! i) (mset (splice_remove i xs)) = mset (take i xs @ xs ! i # drop (Suc i) xs)"
    by (simp add: splice_remove_def)
  also have "\<dots> = mset xs" using assms by (simp only: id_take_nth_drop[symmetric])
  finally show ?thesis by (simp only: mset_splice_insert)
qed

lemma splice_same: "i < length xs \<Longrightarrow> splice_insert i (xs ! i) (splice_remove i xs) = xs"
proof -
  assume i: "i < length xs"
  then have "take i (take i xs @ drop (Suc i) xs) = take i xs"
    "drop i (take i xs @ drop (Suc i) xs) = drop (Suc i) xs" by simp_all
  then have "splice_insert i (xs ! i) (splice_remove i xs) = take i xs @ xs ! i # drop (Suc i) xs"
    by (simp only: splice_insert_def splice_remove_def)
  also have "\<dots> = xs" using i by (simp only: id_take_nth_drop[symmetric])
  finally show ?thesis .
qed

lemma map_sort_key: "map f (sort_key f xs) = sort (map f xs)"
proof (induction xs)
  case Nil show ?case by simp
next
  case (Cons x xs)
  have ins: "map f (insort_key f x ys) = insort (f x) (map f ys)" for ys
    by (induction ys) auto
  show ?case by (simp add: ins Cons.IH)
qed

lemma sort_key_map_commute:
  assumes "\<And>x. f (g x) = f x"
  shows "sort_key f (map g xs) = map g (sort_key f xs)"
proof (induction xs)
  case Nil show ?case by simp
next
  case (Cons x xs)
  have ins: "insort_key f (g y) (map g ys) = map g (insort_key f y ys)" for y ys
    by (induction ys) (simp_all add: assms)
  show ?case by (simp add: Cons.IH ins)
qed

lemma mset_int_upt: "mset (map int [0..<n]) = mset_set {0..<int n}"
proof (induction n)
  case 0 show ?case by simp
next
  case (Suc n)
  have "{0..<int (Suc n)} = insert (int n) {0..<int n}" by auto
  then show ?case using Suc by simp
qed

lemma sorted_int_upt: "sorted (map int [0..<n])"
  by (simp add: sorted_map strict_sorted_iff sorted_wrt_map) 

lemma filter_unique:
  "distinct (map f xs) \<Longrightarrow> x \<in> set xs \<Longrightarrow> filter (\<lambda>y. f y = f x) xs = [x]"
proof (induction xs)
  case Nil then show ?case by simp
next
  case (Cons a xs)
  show ?case
  proof (cases "a = x")
    case True
    from Cons.prems(1) have "f a \<notin> f ` set xs" by simp
    then have "\<forall>y\<in>set xs. f y \<noteq> f a" by (metis imageI)
    then have "filter (\<lambda>y. f y = f a) xs = []" by (simp add: filter_empty_conv)
    with True show ?thesis by simp
  next
    case False
    with Cons.prems have x: "x \<in> set xs" and d: "distinct (map f xs)" by auto
    from Cons.prems(1) x have "f a \<noteq> f x" by force
    with Cons.IH[OF d x] show ?thesis by simp
  qed
qed

lemma close_gap:
  assumes "0 \<le> i" "i < N"
  shows "image_mset (\<lambda>k. if k > i then k - 1 else k) (mset_set {0..<N} - {#i#})
         = mset_set {0..<N - (1::int)}"
proof -
  define f where "f = (\<lambda>k::int. if k > i then k - 1 else k)"
  have d: "mset_set {0..<N} - {#i#} = mset_set ({0..<N} - {i})"
    using assms by (simp add: mset_set_Diff)
  have inj: "inj_on f ({0..<N} - {i})"
    by (auto simp: inj_on_def f_def split: if_splits)
  have img: "f ` ({0..<N} - {i}) = {0..<N - 1}"
  proof (rule set_eqI)
    fix x
    show "x \<in> f ` ({0..<N} - {i}) \<longleftrightarrow> x \<in> {0..<N - 1}"
    proof
      assume "x \<in> f ` ({0..<N} - {i})"
      then show "x \<in> {0..<N - 1}" using assms by (auto simp: f_def split: if_splits)
    next
      assume x: "x \<in> {0..<N - 1}"
      show "x \<in> f ` ({0..<N} - {i})"
      proof (cases "x < i")
        case True
        then have "x = f x" "x \<in> {0..<N} - {i}" using x by (auto simp: f_def)
        then show ?thesis by (rule image_eqI)
      next
        case False
        then have "x = f (x + 1)" "x + 1 \<in> {0..<N} - {i}" using x by (auto simp: f_def)
        then show ?thesis by (rule image_eqI)
      qed
    qed
  qed
  have "image_mset f (mset_set {0..<N} - {#i#}) = image_mset f (mset_set ({0..<N} - {i}))"
    by (simp only: d)
  also have "\<dots> = mset_set (f ` ({0..<N} - {i}))" by (rule image_mset_mset_set[OF inj])
  also have "\<dots> = mset_set {0..<N - 1}" by (simp only: img)
  finally show ?thesis by (simp only: f_def)
qed

lemma open_gap:
  assumes "0 \<le> j" "j \<le> M"
  shows "add_mset j (image_mset (\<lambda>k. if k \<ge> j then k + 1 else k) (mset_set {0..<M}))
         = mset_set {0..<M + (1::int)}"
proof -
  define f where "f = (\<lambda>k::int. if k \<ge> j then k + 1 else k)"
  have inj: "inj_on f {0..<M}"
    by (auto simp: inj_on_def f_def split: if_splits)
  have img: "f ` {0..<M} = {0..<M + 1} - {j}"
  proof (rule set_eqI)
    fix x
    show "x \<in> f ` {0..<M} \<longleftrightarrow> x \<in> {0..<M + 1} - {j}"
    proof
      assume "x \<in> f ` {0..<M}"
      then show "x \<in> {0..<M + 1} - {j}" using assms by (auto simp: f_def split: if_splits)
    next
      assume x: "x \<in> {0..<M + 1} - {j}"
      show "x \<in> f ` {0..<M}"
      proof (cases "x < j")
        case True
        then have "x = f x" "x \<in> {0..<M}" using x assms by (auto simp: f_def)
        then show ?thesis by (rule image_eqI)
      next
        case False
        then have "x = f (x - 1)" "x - 1 \<in> {0..<M}" using x assms by (auto simp: f_def)
        then show ?thesis by (rule image_eqI)
      qed
    qed
  qed
  have ins: "insert j {0..<M + 1} = {0..<M + 1}" using assms by auto
  have "add_mset j (image_mset f (mset_set {0..<M})) = add_mset j (mset_set ({0..<M + 1} - {j}))"
    by (simp only: image_mset_mset_set[OF inj] img)
  also have "\<dots> = mset_set (insert j {0..<M + 1})" by (simp add: mset_set.insert_remove)
  also have "\<dots> = mset_set {0..<M + 1}" by (simp only: ins)
  finally show ?thesis by (simp only: f_def)
qed

section \<open>Dense columns as multisets of orders\<close>

lemma dense_iff:
  "dense pid st ts \<longleftrightarrow>
     mset (map order (column pid st ts)) = mset_set {0..<int (length (column pid st ts))}"
proof
  assume "dense pid st ts"
  then have "sort (map order (column pid st ts)) = map int [0..<length (column pid st ts)]"
    by (simp add: dense_def find_sorted_def map_sort_key)
  then have "mset (map order (column pid st ts)) = mset (map int [0..<length (column pid st ts)])"
    by (metis mset_sort)
  then show "mset (map order (column pid st ts)) = mset_set {0..<int (length (column pid st ts))}"
    by (simp only: mset_int_upt)
next
  assume "mset (map order (column pid st ts)) = mset_set {0..<int (length (column pid st ts))}"
  then have "mset (map int [0..<length (column pid st ts)]) = mset (map order (column pid st ts))"
    by (simp only: mset_int_upt)
  then have "sort (map order (column pid st ts)) = map int [0..<length (column pid st ts)]"
    by (rule properties_for_sort) (rule sorted_int_upt)
  then show "dense pid st ts"
    by (simp add: dense_def find_sorted_def map_sort_key)
qed

lemma column_in_column: "column pid st ts = filter (in_column pid st) ts"
  by (simp add: column_def in_column_def[abs_def])

lemma dense_mset:
  "dense pid st ts \<longleftrightarrow>
     image_mset order (filter_mset (in_column pid st) (mset ts))
       = mset_set {0..<int (size (filter_mset (in_column pid st) (mset ts)))}"
proof -
  have a: "mset (map order (column pid st ts))
           = image_mset order (filter_mset (in_column pid st) (mset ts))"
    by (simp add: column_in_column)
  have b: "length (column pid st ts) = size (filter_mset (in_column pid st) (mset ts))"
    by (metis column_in_column mset_filter size_mset)
  show ?thesis by (simp only: dense_iff a b)
qed

lemma dense_orders: "dense pid st ts \<Longrightarrow> order ` set (column pid st ts) = {0..<int (length (column pid st ts))}"
proof -
  assume "dense pid st ts"
  then have "mset (map order (column pid st ts)) = mset_set {0..<int (length (column pid st ts))}"
    by (simp only: dense_iff)
  then have "set_mset (mset (map order (column pid st ts))) = set_mset (mset_set {0..<int (length (column pid st ts))})"
    by simp
  then show ?thesis by simp
qed

lemma dense_unique_order:
  assumes dn: "dense pid st ts" and a: "a \<in> set (column pid st ts)" and b: "b \<in> set (column pid st ts)"
    and e: "order a = order b"
  shows "a = b"
proof -
  have m: "mset (map order (column pid st ts)) = mset_set {0..<int (length (column pid st ts))}"
    using dn by (simp only: dense_iff)
  have s: "set (map order (column pid st ts)) = {0..<int (length (column pid st ts))}"
    using dense_orders[OF dn] by simp
  have "distinct (map order (column pid st ts))"
    unfolding distinct_count_atmost_1 m s by simp
  then have "inj_on order (set (column pid st ts))" by (simp add: distinct_map)
  from inj_onD[OF this e a b] show ?thesis .
qed

lemma column_member:
  "t \<in> set (find_sorted pid st ts) \<longleftrightarrow> t \<in> set ts \<and> projectId t = pid \<and> status t = st"
  by (auto simp: find_sorted_def column_def)

section \<open>Collections with unique ids\<close>

lemma same_id_same_task:
  "distinct (map tid ts) \<Longrightarrow> a \<in> set ts \<Longrightarrow> b \<in> set ts \<Longrightarrow> tid a = tid b \<Longrightarrow> a = b"
  by (meson distinct_map inj_onD)

lemma split_task:
  assumes "distinct (map tid ts)" "task \<in> set ts"
  shows "mset ts = add_mset task (filter_mset (\<lambda>t. tid t \<noteq> tid task) (mset ts))"
proof -
  have "mset ts = filter_mset (\<lambda>t. tid t = tid task) (mset ts)
                  + filter_mset (\<lambda>t. \<not> tid t = tid task) (mset ts)"
    by (rule multiset_partition)
  moreover have "filter_mset (\<lambda>t. tid t = tid task) (mset ts) = {#task#}"
    using filter_unique[OF assms] by (metis mset_filter mset.simps(1) mset.simps(2))
  ultimately show ?thesis by simp
qed

lemma findOne_Some:
  "findOne i pid ts = Some t \<Longrightarrow> t \<in> set ts \<and> tid t = i \<and> projectId t = pid"
  unfolding findOne_def by (induction ts) (auto split: if_splits)

lemma find_unique:
  "distinct (map tid ts) \<Longrightarrow> t \<in> set ts \<Longrightarrow> findById (tid t) ts = Some t"
proof -
  assume d: "distinct (map tid ts)" and t: "t \<in> set ts"
  then obtain x where x: "find (\<lambda>u. tid u = tid t) ts = Some x"
    by (cases "find (\<lambda>u. tid u = tid t) ts") (auto simp: find_None_iff)
  then have "x \<in> set ts" "tid x = tid t"
    by (auto simp: find_Some_iff)
  from same_id_same_task[OF d this(1) t this(2)] x show ?thesis by (simp add: findById_def)
qed

lemma findById_map:
  "(\<And>t. tid (h t) = tid t) \<Longrightarrow> findById i (map h ts) = map_option h (findById i ts)"
  unfolding findById_def by (induction ts) auto

lemma findOne_map:
  "(\<And>t. tid (h t) = tid t) \<Longrightarrow> (\<And>t. projectId (h t) = projectId t) \<Longrightarrow>
   findOne i pid (map h ts) = map_option h (findOne i pid ts)"
  unfolding findOne_def by (induction ts) auto

lemma update_first_map:
  "distinct (map tid ts) \<Longrightarrow>
   update_first (\<lambda>t. tid t = i) f ts = map (\<lambda>t. if tid t = i then f t else t) ts"
proof (induction ts)
  case Nil show ?case by simp
next
  case (Cons t ts)
  show ?case
  proof (cases "tid t = i")
    case True
    with Cons.prems have "i \<notin> tid ` set ts" by simp
    then have "\<forall>u\<in>set ts. tid u \<noteq> i" by blast
    then have "map (\<lambda>t. if tid t = i then f t else t) ts = ts"
      by (simp add: map_idI)
    with True show ?thesis by simp
  next
    case False
    with Cons show ?thesis by simp
  qed
qed

lemma distinct_sorted_ids:
  assumes "distinct (map tid ts)"
  shows "distinct (map tid (find_sorted pid st ts))"
proof -
  have "mset (map tid (find_sorted pid st ts)) = mset (map tid (column pid st ts))"
    by (simp add: find_sorted_def)
  moreover have "distinct (map tid (column pid st ts))"
    unfolding column_def by (rule distinct_map_filter[OF assms])
  ultimately show ?thesis by (metis mset_eq_imp_distinct_iff)
qed

section \<open>The bulk write of the in-column branch\<close>

lemma tid_apply_op [simp]: "tid (apply_op now u t) = tid t"
  by (simp add: apply_op_def)

lemma bulkWrite_map: "distinct (map tid ts) \<Longrightarrow> bulkWrite now ops ts = map (apply_ops now ops) ts"
proof (induction ops arbitrary: ts)
  case Nil show ?case by (simp add: bulkWrite_def apply_ops_def)
next
  case (Cons u ops)
  have step: "apply_updateOne now u ts = map (apply_op now u) ts"
    using Cons.prems by (simp add: apply_updateOne_def update_first_map apply_op_def)
  have "distinct (map tid (map (apply_op now u) ts))"
    using Cons.prems by (simp add: comp_def)
  from Cons.IH[OF this] step show ?case
    by (simp add: bulkWrite_def apply_ops_def)
qed

lemma tid_apply_ops [simp]: "tid (apply_ops now ops t) = tid t"
  unfolding apply_ops_def by (induction ops arbitrary: t) (simp_all add: apply_op_def)

lemma projectId_apply_ops [simp]: "projectId (apply_ops now ops t) = projectId t"
  unfolding apply_ops_def by (induction ops arbitrary: t) (simp_all add: apply_op_def)

lemma status_apply_ops [simp]: "status (apply_ops now ops t) = status t"
  unfolding apply_ops_def by (induction ops arbitrary: t) (simp_all add: apply_op_def)

lemma in_column_apply_ops [simp]: "in_column pid st (apply_ops now ops t) = in_column pid st t"
  by (simp add: in_column_def)

lemma apply_ops_other: "tid t \<notin> filter_id ` set ops \<Longrightarrow> apply_ops now ops t = t"
  unfolding apply_ops_def
  by (induction ops arbitrary: t) (auto simp: apply_op_def)

lemma apply_ops_order:
  "distinct (map filter_id ops) \<Longrightarrow> u \<in> set ops \<Longrightarrow> filter_id u = tid t \<Longrightarrow>
   order (apply_ops now ops t) = set_order u"
proof (induction ops arbitrary: t)
  case Nil then show ?case by simp
next
  case (Cons v ops)
  show ?case
  proof (cases "u = v")
    case True
    from Cons.prems(1) have "tid (apply_op now v t) \<notin> filter_id ` set ops"
      using Cons.prems(3) True by auto
    then have "apply_ops now ops (apply_op now v t) = apply_op now v t" by (rule apply_ops_other)
    then show ?thesis using True Cons.prems(3) by (simp add: apply_ops_def apply_op_def)
  next
    case False
    with Cons.prems have m: "u \<in> set ops" by simp
    from Cons.prems have d: "distinct (map filter_id ops)" by simp
    have e: "filter_id u = tid (apply_op now v t)" using Cons.prems(3) by simp
    have "order (apply_ops now ops (apply_op now v t)) = set_order u" by (rule Cons.IH[OF d m e])
    then show ?thesis by (simp add: apply_ops_def)
  qed
qed

lemma apply_ops_untimed:
  "untimed (apply_ops now ops t) = untimed (t\<lparr>order := order (apply_ops now ops t)\<rparr>)"
proof (induction ops arbitrary: t)
  case Nil show ?case by (simp add: apply_ops_def)
next
  case (Cons u ops)
  have "apply_ops now (u # ops) t = apply_ops now ops (apply_op now u t)" by (simp add: apply_ops_def)
  moreover have "untimed ((apply_op now u t)\<lparr>order := k\<rparr>) = untimed (t\<lparr>order := k\<rparr>)" for k
    by (simp add: apply_op_def untimed_def)
  ultimately show ?case using Cons.IH[of "apply_op now u t"] by simp
qed

lemma length_bulkOps [simp]: "length (bulkOps clock xs) = length xs"
  by (simp add: bulkOps_def)

lemma bulkOps_nth:
  "k < length xs \<Longrightarrow>
   bulkOps clock xs ! k = \<lparr>filter_id = tid (xs ! k), set_order = int k, set_updatedAt = clock k\<rparr>"
  by (simp add: bulkOps_def nth_enumerate_eq)

lemma bulkOps_ids: "map filter_id (bulkOps clock xs) = map tid xs"
  by (rule nth_equalityI) (simp_all add: bulkOps_nth)

lemma renumbered:
  assumes "distinct (map tid xs)"
  shows "map (\<lambda>t. order (apply_ops now (bulkOps clock xs) t)) xs = map int [0..<length xs]"
proof (rule nth_equalityI)
  show "length (map (\<lambda>t. order (apply_ops now (bulkOps clock xs) t)) xs) = length (map int [0..<length xs])"
    by simp
next
  fix k assume "k < length (map (\<lambda>t. order (apply_ops now (bulkOps clock xs) t)) xs)"
  then have k: "k < length xs" by simp
  have d: "distinct (map filter_id (bulkOps clock xs))"
    using assms by (simp only: bulkOps_ids)
  have m: "bulkOps clock xs ! k \<in> set (bulkOps clock xs)"
    using k by simp
  have e: "filter_id (bulkOps clock xs ! k) = tid (xs ! k)"
    using k by (simp add: bulkOps_nth)
  have "order (apply_ops now (bulkOps clock xs) (xs ! k)) = set_order (bulkOps clock xs ! k)"
    by (rule apply_ops_order[OF d m e])
  then show "map (\<lambda>t. order (apply_ops now (bulkOps clock xs) t)) xs ! k = map int [0..<length xs] ! k"
    using k by (simp add: bulkOps_nth)
qed

lemma same_column_dense_col:
  assumes d: "distinct (map tid ts)"
    and i: "i < length (find_sorted pid src ts)"
    and ins: "ins = splice_insert k (find_sorted pid src ts ! i) (splice_remove i (find_sorted pid src ts))"
    and dn: "st = src \<or> dense pid st ts"
  shows "dense pid st (map (apply_ops now (bulkOps clock ins)) ts)"
proof -
  define h where "h = apply_ops now (bulkOps clock ins)"
  define C where "C = filter_mset (in_column pid st) (mset ts)"
  have mi: "mset ins = filter_mset (in_column pid src) (mset ts)"
    unfolding ins using mset_splice[OF i]
    by (simp add: find_sorted_def column_in_column)
  have after: "filter_mset (in_column pid st) (mset (map h ts)) = image_mset h C"
    by (simp add: filter_mset_image_mset h_def C_def)
  have "image_mset order (image_mset h C) = mset_set {0..<int (size (image_mset h C))}"
  proof (cases "st = src")
    case True
    then have c: "C = mset ins" by (simp add: C_def mi)
    have "mset (map tid ins) = mset (map tid (column pid src ts))"
      using mi by (simp add: column_in_column)
    moreover have "distinct (map tid (column pid src ts))"
      unfolding column_def by (rule distinct_map_filter[OF d])
    ultimately have di: "distinct (map tid ins)"
      by (metis mset_eq_imp_distinct_iff)
    have "image_mset order (image_mset h C) = mset (map (\<lambda>t. order (h t)) ins)"
      by (simp add: c image_mset.compositionality comp_def)
    also have "\<dots> = mset (map int [0..<length ins])"
      unfolding h_def by (simp only: renumbered[OF di])
    also have "\<dots> = mset_set {0..<int (length ins)}" by (rule mset_int_upt)
    finally show ?thesis by (simp add: c)
  next
    case False
    with dn have dn': "dense pid st ts" by simp
    have "image_mset h C = image_mset (\<lambda>t. t) C"
    proof (rule image_mset_cong)
      fix t assume t: "t \<in># C"
      then have ts: "t \<in> set ts" and st: "status t = st" by (simp_all add: C_def in_column_def)
      have "tid t \<notin> filter_id ` set (bulkOps clock ins)"
      proof
        assume "tid t \<in> filter_id ` set (bulkOps clock ins)"
        then have "tid t \<in> set (map filter_id (bulkOps clock ins))" by simp
        then have "tid t \<in> set (map tid ins)" by (simp only: bulkOps_ids)
        then obtain c where c: "c \<in> set ins" "tid c = tid t" by auto
        from c(1) have "c \<in># filter_mset (in_column pid src) (mset ts)"
          by (simp only: mi[symmetric] set_mset_mset)
        then have "c \<in> set ts" "status c = src" by (simp_all add: in_column_def)
        with same_id_same_task[OF d this(1) ts c(2)] st False show False by simp
      qed
      then show "h t = t" unfolding h_def by (rule apply_ops_other)
    qed
    then have "image_mset h C = C" by simp
    with dn' show ?thesis by (simp add: dense_mset C_def)
  qed
  then show ?thesis unfolding dense_mset after[unfolded h_def C_def] h_def C_def .
qed

lemma same_column_result:
  assumes d: "distinct (map tid (Task db))"
    and ok: "reorder_same_column clock pid r db = (Inr resp, db')"
  shows "\<exists>i ins. i < length (find_sorted pid (sourceStatus r) (Task db))
           \<and> tid (find_sorted pid (sourceStatus r) (Task db) ! i) = taskId r
           \<and> findIndex (\<lambda>t. tid t = taskId r) (find_sorted pid (sourceStatus r) (Task db)) = Some i
           \<and> ins = splice_insert (destinationIndex r) (find_sorted pid (sourceStatus r) (Task db) ! i)
                      (splice_remove i (find_sorted pid (sourceStatus r) (Task db)))
           \<and> Task db' = map (apply_ops (clock (length ins - 1)) (bulkOps clock ins)) (Task db)
           \<and> Project db' = Project db
           \<and> resp = findById (taskId r) (Task db')"
proof -
  from ok obtain i where i: "findIndex (\<lambda>t. tid t = taskId r) (find_sorted pid (sourceStatus r) (Task db)) = Some i"
    by (auto simp: reorder_same_column_def Let_def split: option.splits)
  define ins where "ins = splice_insert (destinationIndex r) (find_sorted pid (sourceStatus r) (Task db) ! i)
                      (splice_remove i (find_sorted pid (sourceStatus r) (Task db)))"
  from findIndex_Some[OF i] have "i < length (find_sorted pid (sourceStatus r) (Task db))"
    "tid (find_sorted pid (sourceStatus r) (Task db) ! i) = taskId r" by simp_all
  moreover from ok i have "Task db' = bulkWrite (clock (length ins - 1)) (bulkOps clock ins) (Task db)"
    "Project db' = Project db" "resp = findById (taskId r) (Task db')"
    by (auto simp: reorder_same_column_def Let_def ins_def)
  ultimately show ?thesis using i ins_def by (simp add: bulkWrite_map[OF d])
qed

section \<open>The three writes of the cross-column branch\<close>

lemma cross_map:
  "distinct (map tid (Task db)) \<Longrightarrow>
   Task (snd (reorder_cross_column clock pid r task db)) = map (moved clock pid r task) (Task db)"
  by (simp add: reorder_cross_column_def Let_def findByIdAndUpdate_def update_first_map
      updateMany_def moved_def comp_def cong: if_cong)

lemma tid_moved [simp]: "tid (moved clock pid r task t) = tid t"
  by (simp add: moved_def Let_def)

lemma projectId_moved [simp]: "projectId (moved clock pid r task t) = projectId t"
  by (simp add: moved_def Let_def)

lemma moved_task:
  "sourceStatus r \<noteq> destinationStatus r \<Longrightarrow> tid t = taskId r \<Longrightarrow>
   moved clock pid r task t =
     t\<lparr>status := destinationStatus r, order := int (destinationIndex r), updatedAt := clock 0\<rparr>"
  by (simp add: moved_def Let_def)

lemma moved_other:
  "tid t \<noteq> taskId r \<Longrightarrow> sourceStatus r \<noteq> destinationStatus r \<Longrightarrow>
   moved clock pid r task t =
     (if in_column pid (sourceStatus r) t \<and> order t > order task
      then t\<lparr>order := order t - 1, updatedAt := clock 1\<rparr>
      else if in_column pid (destinationStatus r) t \<and> order t \<ge> int (destinationIndex r)
      then t\<lparr>order := order t + 1, updatedAt := clock 2\<rparr> else t)"
  by (auto simp add: moved_def Let_def in_column_def)

lemma in_column_moved_other:
  "tid t \<noteq> taskId r \<Longrightarrow> in_column pid' st (moved clock pid r task t) = in_column pid' st t"
  by (simp add: moved_def Let_def in_column_def)

lemma cross_column_dense_col:
  assumes d: "distinct (map tid ts)"
    and f: "findOne (taskId r) pid ts = Some task"
    and s: "status task = sourceStatus r"
    and ne: "sourceStatus r \<noteq> destinationStatus r"
    and k: "destinationIndex r \<le> length (column pid (destinationStatus r) ts)"
    and dn: "dense pid st ts"
  shows "dense pid st (map (moved clock pid r task) ts)"
proof -
  define h where "h = moved clock pid r task"
  define R where "R = filter_mset (\<lambda>t. tid t \<noteq> taskId r) (mset ts)"
  define A where "A = filter_mset (in_column pid st) R"
  define j where "j = int (destinationIndex r)"
  from findOne_Some[OF f] have tk: "task \<in> set ts" "tid task = taskId r" "projectId task = pid"
    by simp_all
  have M: "mset ts = add_mset task R"
    using split_task[OF d tk(1)] by (simp add: R_def tk(2))
  have Rid: "tid t \<noteq> taskId r" if "t \<in># R" for t
    using that by (simp add: R_def)
  have Aid: "tid t \<noteq> taskId r" and Acol: "in_column pid st t" if "t \<in># A" for t
    using that Rid by (simp_all add: A_def)
  have htask: "h task = task\<lparr>status := destinationStatus r, order := j, updatedAt := clock 0\<rparr>"
    unfolding h_def j_def by (rule moved_task[OF ne tk(2)])
  have colR: "filter_mset (in_column pid st) (image_mset h R) = image_mset h A"
  proof -
    have "filter_mset (\<lambda>t. in_column pid st (h t)) R = filter_mset (in_column pid st) R"
      by (rule filter_mset_cong0) (simp add: h_def in_column_moved_other Rid)
    then show ?thesis by (simp only: filter_mset_image_mset A_def)
  qed
  have before: "filter_mset (in_column pid st) (mset ts)
                = (if st = sourceStatus r then add_mset task A else A)"
    by (simp add: M A_def in_column_def tk(3) s)
  have after: "filter_mset (in_column pid st) (mset (map h ts))
               = (if st = destinationStatus r then add_mset (h task) (image_mset h A)
                  else image_mset h A)"
  proof -
    have e: "mset (map h ts) = add_mset (h task) (image_mset h R)"
      by (simp add: M)
    have c: "in_column pid st (h task) \<longleftrightarrow> st = destinationStatus r"
      by (auto simp: htask in_column_def tk(3))
    have "filter_mset (in_column pid st) (mset (map h ts))
          = (if in_column pid st (h task) then add_mset (h task) (image_mset h A)
             else image_mset h A)"
      by (simp only: e filter_mset_add_mset colR)
    then show ?thesis by (simp only: c)
  qed
  consider (src) "st = sourceStatus r" | (dst) "st = destinationStatus r"
    | (other) "st \<noteq> sourceStatus r" "st \<noteq> destinationStatus r" by blast
  then have "image_mset order (filter_mset (in_column pid st) (mset (map h ts)))
             = mset_set {0..<int (size (filter_mset (in_column pid st) (mset (map h ts))))}"
  proof cases
    case src
    with ne have nd: "st \<noteq> destinationStatus r" by simp
    have b': "filter_mset (in_column pid st) (mset ts) = add_mset task A"
      using before src by simp
    have a': "filter_mset (in_column pid st) (mset (map h ts)) = image_mset h A"
      using after nd by simp
    from dn[unfolded dense_mset b']
    have "add_mset (order task) (image_mset order A) = mset_set {0..<int (Suc (size A))}"
      by simp
    then have X: "image_mset order A = mset_set {0..<int (Suc (size A))} - {#order task#}"
      and mem: "order task \<in># mset_set {0..<int (Suc (size A))}"
      by (metis add_mset_remove_trivial, metis union_single_eq_member)
    from mem have rng: "0 \<le> order task" "order task < int (Suc (size A))"
      by simp_all
    have "image_mset order (image_mset h A)
          = image_mset (\<lambda>t. if order t > order task then order t - 1 else order t) A"
      unfolding image_mset.compositionality comp_def
    proof (rule image_mset_cong)
      fix t assume "t \<in># A"
      then show "order (h t) = (if order t > order task then order t - 1 else order t)"
        using Aid Acol src nd ne by (simp add: h_def moved_other in_column_def)
    qed
    also have "\<dots> = image_mset (\<lambda>k. if k > order task then k - 1 else k) (image_mset order A)"
      by (simp add: image_mset.compositionality comp_def)
    also have "\<dots> = mset_set {0..<int (Suc (size A)) - 1}"
      unfolding X by (rule close_gap[OF rng])
    finally show ?thesis unfolding a' by simp
  next
    case dst
    with ne have ns: "st \<noteq> sourceStatus r" by simp
    have b': "filter_mset (in_column pid st) (mset ts) = A"
      using before ns by simp
    have a': "filter_mset (in_column pid st) (mset (map h ts)) = add_mset (h task) (image_mset h A)"
      using after dst by simp
    from dn[unfolded dense_mset b'] have Y: "image_mset order A = mset_set {0..<int (size A)}" .
    have "length (column pid st ts) = size A"
      using b' by (metis column_in_column mset_filter size_mset)
    then have "length (column pid (destinationStatus r) ts) = size A"
      using dst by simp
    with k have jb: "0 \<le> j" "j \<le> int (size A)" by (simp_all add: j_def)
    have "image_mset order (image_mset h A)
          = image_mset (\<lambda>t. if order t \<ge> j then order t + 1 else order t) A"
      unfolding image_mset.compositionality comp_def
    proof (rule image_mset_cong)
      fix t assume "t \<in># A"
      then show "order (h t) = (if order t \<ge> j then order t + 1 else order t)"
        using Aid Acol dst ns ne by (simp add: h_def moved_other in_column_def j_def)
    qed
    also have "\<dots> = image_mset (\<lambda>k. if k \<ge> j then k + 1 else k) (image_mset order A)"
      by (simp add: image_mset.compositionality comp_def)
    finally have "add_mset j (image_mset order (image_mset h A)) = mset_set {0..<int (size A) + 1}"
      unfolding Y using open_gap[OF jb] by simp
    then show ?thesis unfolding a' by (simp add: htask add.commute)
  next
    case other
    have "image_mset h A = image_mset (\<lambda>t. t) A"
    proof (rule image_mset_cong)
      fix t assume "t \<in># A"
      then show "h t = t"
        using Aid Acol other by (simp add: h_def moved_other[OF _ ne] in_column_def)
    qed
    then have i: "image_mset h A = A" by simp
    have b': "filter_mset (in_column pid st) (mset ts) = A"
      using before other by simp
    have a': "filter_mset (in_column pid st) (mset (map h ts)) = A"
      using after other i by simp
    from dn[unfolded dense_mset b'] show ?thesis unfolding a' .
  qed
  then show ?thesis by (simp only: dense_mset h_def)
qed

lemma cross_column_result:
  assumes d: "distinct (map tid (Task db))"
    and ok: "reorder_cross_column clock pid r task db = (resp, db')"
  shows "Task db' = map (moved clock pid r task) (Task db) \<and> Project db' = Project db
         \<and> resp = Inr (findById (taskId r) (Task db'))"
proof -
  from cross_map[OF d, of clock pid r task] ok
  have "Task db' = map (moved clock pid r task) (Task db)" by simp
  moreover from ok have "Project db' = Project db" "resp = Inr (findById (taskId r) (Task db'))"
    by (auto simp: reorder_cross_column_def Let_def)
  ultimately show ?thesis by simp
qed

lemma reorder_success:
  assumes "reorder clock pid r db = (Inr resp, db')"
  shows "pid \<in> set (Project db) \<and> (\<exists>task. findOne (taskId r) pid (Task db) = Some task
     \<and> (if sourceStatus r = destinationStatus r
         then reorder_same_column clock pid r db = (Inr resp, db')
         else reorder_cross_column clock pid r task db = (Inr resp, db')))"
  using assms by (auto simp: reorder_def split: if_splits option.splits)

section \<open>Timestamps and frames\<close>

lemma untimed_idem [simp]: "untimed (untimed t) = untimed t"
  by (simp add: untimed_def)

lemma find_sorted_untimed:
  "find_sorted pid st (map untimed ts) = map untimed (find_sorted pid st ts)"
proof -
  have "column pid st (map untimed ts) = map untimed (column pid st ts)"
    by (simp add: column_def filter_map comp_def untimed_def)
  moreover have "order (untimed x) = order x" for x by (simp add: untimed_def)
  ultimately show ?thesis by (simp add: find_sorted_def sort_key_map_commute)
qed

lemma find_sorted_untimed_eq:
  assumes "map untimed ts' = map untimed ts"
  shows "map untimed (find_sorted pid st ts') = map untimed (find_sorted pid st ts)"
proof -
  have "map untimed (find_sorted pid st ts') = find_sorted pid st (map untimed ts')"
    by (simp only: find_sorted_untimed)
  also have "\<dots> = find_sorted pid st (map untimed ts)" by (simp only: assms)
  also have "\<dots> = map untimed (find_sorted pid st ts)" by (simp only: find_sorted_untimed)
  finally show ?thesis .
qed

lemma frame_update_first:
  "(\<And>t. frame (f t) = frame t) \<Longrightarrow> map frame (update_first P f ts) = map frame ts"
  by (induction ts) auto

lemma frame_bulkWrite: "map frame (bulkWrite now ops ts) = map frame ts"
  unfolding bulkWrite_def
  by (induction ops arbitrary: ts) (simp_all add: apply_updateOne_def frame_update_first frame_def)

lemma frame_updateMany:
  "(\<And>t. frame (f t) = frame t) \<Longrightarrow> map frame (updateMany P f ts) = map frame ts"
  by (simp add: updateMany_def)

section \<open>A drop at the same position\<close>

lemma apply_ops_only:
  "apply_ops now ops t
     = t\<lparr>order := order (apply_ops now ops t), updatedAt := updatedAt (apply_ops now ops t)\<rparr>"
proof (induction ops arbitrary: t)
  case Nil show ?case by (simp add: apply_ops_def)
next
  case (Cons u ops)
  have s: "apply_ops now (u # ops) t = apply_ops now ops (apply_op now u t)"
    by (simp add: apply_ops_def)
  have "(apply_op now u t)\<lparr>order := a, updatedAt := b\<rparr> = t\<lparr>order := a, updatedAt := b\<rparr>" for a b
    by (simp add: apply_op_def)
  with Cons.IH[of "apply_op now u t"] show ?case by (simp only: s)
qed

lemma apply_ops_stamp_kept:
  "updatedAt t = now \<Longrightarrow> updatedAt (apply_ops now ops t) = now"
  unfolding apply_ops_def by (induction ops arbitrary: t) (simp_all add: apply_op_def)

lemma apply_ops_stamp:
  "tid t \<in> filter_id ` set ops \<Longrightarrow> updatedAt (apply_ops now ops t) = now"
proof (induction ops arbitrary: t)
  case Nil then show ?case by simp
next
  case (Cons u ops)
  have s: "apply_ops now (u # ops) t = apply_ops now ops (apply_op now u t)"
    by (simp add: apply_ops_def)
  show ?case
  proof (cases "tid t = filter_id u")
    case True
    then have "updatedAt (apply_op now u t) = now" by (simp add: apply_op_def)
    then show ?thesis unfolding s by (rule apply_ops_stamp_kept)
  next
    case False
    with Cons.prems have "tid (apply_op now u t) \<in> filter_id ` set ops" by auto
    then show ?thesis unfolding s by (rule Cons.IH)
  qed
qed

lemma same_position_writes:
  assumes d: "distinct (map tid (Task db))"
    and p: "pid \<in> set (Project db)"
    and dn: "dense pid st (Task db)"
    and i: "findIndex (\<lambda>t. tid t = taskId r) (find_sorted pid st (Task db)) = Some i"
    and src: "sourceStatus r = st" and dst: "destinationStatus r = st"
    and k: "destinationIndex r = i"
  shows "(\<exists>t. fst (reorder clock pid r db) = Inr (Some t))
         \<and> Task (snd (reorder clock pid r db))
             = map (\<lambda>t. if projectId t = pid \<and> status t = st
                         then t\<lparr>updatedAt := clock (length (column pid st (Task db)) - 1)\<rparr>
                         else t) (Task db)"
proof -
  define srt where "srt = find_sorted pid st (Task db)"
  define now where "now = clock (length srt - 1)"
  define h where "h = apply_ops now (bulkOps clock srt)"
  have ln: "length srt = length (column pid st (Task db))"
    by (simp add: srt_def find_sorted_def)
  from findIndex_Some[OF i] have il: "i < length srt" and ii: "tid (srt ! i) = taskId r"
    by (simp_all add: srt_def)
  from il have "srt ! i \<in> set srt" by simp
  then have m: "srt ! i \<in> set (Task db)" "projectId (srt ! i) = pid"
    by (simp_all add: srt_def column_member)
  with ii have "findOne (taskId r) pid (Task db) \<noteq> None"
    by (auto simp: findOne_def find_None_iff)
  then obtain task where f: "findOne (taskId r) pid (Task db) = Some task" by auto
  from findOne_Some[OF f] have tk: "task \<in> set (Task db)" "tid task = taskId r" by simp_all
  have same: "splice_insert i (srt ! i) (splice_remove i srt) = srt"
    by (rule splice_same[OF il])
  have res: "reorder clock pid r db
             = (Inr (findById (taskId r) (map h (Task db))), db\<lparr>Task := map h (Task db)\<rparr>)"
    using p f i src dst k same
    by (simp add: reorder_def reorder_same_column_def Let_def srt_def[symmetric]
        bulkWrite_map[OF d] h_def now_def)
  have fb: "findById (taskId r) (map h (Task db)) = Some (h task)"
    using find_unique[OF d tk(1)] tk(2) by (simp add: findById_map h_def)
  have di: "distinct (map tid srt)" unfolding srt_def by (rule distinct_sorted_ids[OF d])
  have "map (\<lambda>t. order (h t)) srt = map int [0..<length srt]"
    unfolding h_def by (rule renumbered[OF di])
  also have "\<dots> = map order srt"
    using dn by (simp add: dense_def srt_def find_sorted_def)
  finally have keep: "\<forall>t\<in>set srt. order (h t) = order t" by (simp only: map_eq_conv)
  have "h t = (if projectId t = pid \<and> status t = st then t\<lparr>updatedAt := now\<rparr> else t)"
    if t: "t \<in> set (Task db)" for t
  proof (cases "t \<in> set srt")
    case True
    then have c: "projectId t = pid \<and> status t = st" by (simp add: srt_def column_member)
    from True have "tid t \<in> set (map tid srt)" by simp
    then have "tid t \<in> set (map filter_id (bulkOps clock srt))" by (simp only: bulkOps_ids)
    then have "tid t \<in> filter_id ` set (bulkOps clock srt)" by simp
    then have u: "updatedAt (h t) = now" unfolding h_def by (rule apply_ops_stamp)
    from True keep have o: "order (h t) = order t" by simp
    have "h t = t\<lparr>order := order (h t), updatedAt := updatedAt (h t)\<rparr>"
      unfolding h_def by (rule apply_ops_only)
    then have "h t = t\<lparr>updatedAt := now\<rparr>" by (simp add: o u)
    with c show ?thesis by simp
  next
    case False
    with t have c: "\<not> (projectId t = pid \<and> status t = st)" by (simp add: srt_def column_member)
    have "tid t \<notin> filter_id ` set (bulkOps clock srt)"
    proof
      assume "tid t \<in> filter_id ` set (bulkOps clock srt)"
      then have "tid t \<in> set (map filter_id (bulkOps clock srt))" by simp
      then have "tid t \<in> set (map tid srt)" by (simp only: bulkOps_ids)
      then obtain c where c: "c \<in> set srt" "tid c = tid t" by auto
      from c(1) have "c \<in> set (Task db)" by (simp add: srt_def column_member)
      from same_id_same_task[OF d this t c(2)] c(1) False show False by simp
    qed
    then have "h t = t" unfolding h_def by (rule apply_ops_other)
    with c show ?thesis by auto
  qed
  then have "map h (Task db)
             = map (\<lambda>t. if projectId t = pid \<and> status t = st then t\<lparr>updatedAt := now\<rparr> else t) (Task db)"
    by (simp cong: map_cong)
  with res fb show ?thesis by (simp add: now_def ln)
qed

lemma same_position_client:
  "destination result = Some (source result) \<Longrightarrow>
   handleDragEnd result a g b = \<lparr>optimistic = None, sent = None, final = b\<lparr>dragInProgress := False\<rparr>\<rparr>"
  by (simp add: handleDragEnd_def Let_def)

section \<open>The next order of a column\<close>




section \<open>Moving away and back\<close>

lemma findIndex_unique:
  "distinct (map f (xs @ x # ys)) \<Longrightarrow> findIndex (\<lambda>t. f t = f x) (xs @ x # ys) = Some (length xs)"
proof (induction xs)
  case Nil show ?case by simp
next
  case (Cons a xs)
  from Cons.prems have "f a \<noteq> f x" by auto
  moreover from Cons.prems have "distinct (map f (xs @ x # ys))" by simp
  ultimately show ?case using Cons.IH by simp
qed

lemma splice_remove_middle: "splice_remove (length xs) (xs @ x # ys) = xs @ ys"
  by (simp add: splice_remove_def)

lemma splice_insert_split:
  "\<exists>xs ys. splice_insert k x zs = xs @ x # ys \<and> zs = xs @ ys"
  unfolding splice_insert_def by (metis append_take_drop_id)

lemma splice_remove_map: "splice_remove i (map h xs) = map h (splice_remove i xs)"
  by (simp add: splice_remove_def take_map drop_map)

lemma splice_insert_map: "splice_insert i (h x) (map h xs) = map h (splice_insert i x xs)"
  by (simp add: splice_insert_def take_map drop_map)

lemma findIndex_map: "findIndex P (map h xs) = findIndex (P \<circ> h) xs"
  by (induction xs) auto

lemma bulkOps_map_ids:
  "(\<And>t. tid (h t) = tid t) \<Longrightarrow> bulkOps clock (map h xs) = bulkOps clock xs"
  by (rule nth_equalityI) (simp_all add: bulkOps_nth)

lemma sorted_after_bulkWrite:
  assumes d: "distinct (map tid ts)"
    and mi: "mset ins = mset (column pid st ts)"
  shows "find_sorted pid st (map (apply_ops now (bulkOps clock ins)) ts)
         = map (apply_ops now (bulkOps clock ins)) ins"
proof -
  define h where "h = apply_ops now (bulkOps clock ins)"
  have col: "column pid st (map h ts) = map h (column pid st ts)"
    by (simp add: column_def filter_map comp_def h_def)
  have "distinct (map tid (column pid st ts))"
    unfolding column_def by (rule distinct_map_filter[OF d])
  moreover have "mset (map tid ins) = mset (map tid (column pid st ts))"
    using mi by simp
  ultimately have di: "distinct (map tid ins)" by (metis mset_eq_imp_distinct_iff)
  have ren: "map order (map h ins) = map int [0..<length ins]"
    using renumbered[OF di, of now clock] by (simp add: h_def comp_def)
  have m: "mset (map h (column pid st ts)) = mset (map h ins)" using mi by simp
  have "distinct (map order (map h ins))"
    unfolding ren by (simp add: distinct_map inj_on_def)
  moreover have "mset (map order (map h (column pid st ts))) = mset (map order (map h ins))"
    using m by (metis mset_map)
  ultimately have "distinct (map order (map h (column pid st ts)))"
    by (metis mset_eq_imp_distinct_iff)
  then have inj: "inj_on order (set (map h (column pid st ts)))"
    by (simp only: distinct_map)
  have srt: "sorted (map order (map h ins))"
    unfolding ren by (rule sorted_int_upt)
  have "sort_key order (map h (column pid st ts)) = map h ins"
    by (rule sort_key_inj_key_eq[OF m inj srt])
  then have "find_sorted pid st (map h ts) = map h ins"
    by (simp only: find_sorted_def col)
  then show ?thesis by (simp only: h_def)
qed

lemma apply_ops_untimed_order:
  "untimed ((apply_ops now ops t)\<lparr>order := k\<rparr>) = untimed (t\<lparr>order := k\<rparr>)"
proof (induction ops arbitrary: t)
  case Nil show ?case by (simp add: apply_ops_def)
next
  case (Cons u ops)
  have "apply_ops now (u # ops) t = apply_ops now ops (apply_op now u t)" by (simp add: apply_ops_def)
  moreover have "untimed ((apply_op now u t)\<lparr>order := k\<rparr>) = untimed (t\<lparr>order := k\<rparr>)"
    by (simp add: apply_op_def untimed_def)
  ultimately show ?case using Cons.IH[of "apply_op now u t"] by simp
qed

lemma same_column_round_trip:
  assumes d: "distinct (map tid (Task db))"
    and p: "pid \<in> set (Project db)"
    and dn: "dense pid A (Task db)"
    and i: "findIndex (\<lambda>t. tid t = T) (find_sorted pid A (Task db)) = Some i"
    and m1: "reorder clock pid \<lparr>taskId = T, sourceStatus = A, destinationStatus = A,
                                 sourceIndex = i, destinationIndex = j\<rparr> db = (r1, db1)"
    and m2: "reorder clock' pid \<lparr>taskId = T, sourceStatus = A, destinationStatus = A,
                                  sourceIndex = j, destinationIndex = i\<rparr> db1 = (r2, db2)"
  shows "(\<exists>t1 t2. r1 = Inr (Some t1) \<and> r2 = Inr (Some t2))
         \<and> map untimed (Task db2) = map untimed (Task db)"
proof -
  define srt where "srt = find_sorted pid A (Task db)"
  define task where "task = srt ! i"
  define rem where "rem = splice_remove i srt"
  define ins1 where "ins1 = splice_insert j task rem"
  define h1 where "h1 = apply_ops (clock (length ins1 - 1)) (bulkOps clock ins1)"
  define h2 where "h2 = apply_ops (clock' (length srt - 1)) (bulkOps clock' srt)"
  from findIndex_Some[OF i] have il: "i < length srt" and ii: "tid task = T"
    by (simp_all add: srt_def task_def)
  from il have ms: "task \<in> set srt" by (simp add: task_def)
  then have tk: "task \<in> set (Task db)" "projectId task = pid" "status task = A"
    by (simp_all add: srt_def column_member)
  from tk ii have "findOne T pid (Task db) \<noteq> None"
    by (auto simp: findOne_def find_None_iff)
  then obtain x where f1: "findOne T pid (Task db) = Some x" by auto
  have fb: "findById T (Task db) = Some task"
    using find_unique[OF d tk(1)] ii by simp
  have t1: "Task db1 = map h1 (Task db)" and p1: "Project db1 = Project db"
    and r1: "r1 = Inr (findById T (map h1 (Task db)))"
    using m1 p f1 i
    by (auto simp: reorder_def reorder_same_column_def Let_def srt_def[symmetric]
        task_def[symmetric] rem_def[symmetric] ins1_def[symmetric] bulkWrite_map[OF d] h1_def)
  have r1': "r1 = Inr (Some (h1 task))"
    by (simp add: r1 findById_map fb h1_def)
  have d1: "distinct (map tid (Task db1))"
    using d by (simp add: t1 h1_def comp_def)
  have mi: "mset ins1 = mset (column pid A (Task db))"
    unfolding ins1_def rem_def task_def using mset_splice[OF il]
    by (simp add: srt_def find_sorted_def)
  have s1: "find_sorted pid A (Task db1) = map h1 ins1"
    unfolding t1 h1_def by (rule sorted_after_bulkWrite[OF d mi])
  have di: "distinct (map tid srt)" unfolding srt_def by (rule distinct_sorted_ids[OF d])
  have "mset (map tid ins1) = mset (map tid srt)"
    using mi by (simp add: srt_def find_sorted_def)
  with di have di1: "distinct (map tid ins1)" by (metis mset_eq_imp_distinct_iff)
  from splice_insert_split[of j task rem] obtain xs ys where
    sp: "ins1 = xs @ task # ys" "rem = xs @ ys" by (auto simp: ins1_def)
  have "findIndex (\<lambda>t. tid t = tid task) (xs @ task # ys) = Some (length xs)"
    using di1 unfolding sp(1) by (rule findIndex_unique)
  then have fi0: "findIndex (\<lambda>t. tid t = T) ins1 = Some (length xs)"
    by (simp only: sp(1) ii)
  have "findIndex (\<lambda>t. tid t = T) (map h1 ins1) = findIndex (\<lambda>t. tid t = T) ins1"
    by (simp add: findIndex_map comp_def h1_def)
  with fi0 have fi: "findIndex (\<lambda>t. tid t = T) (map h1 ins1) = Some (length xs)"
    by simp
  have "(map h1 xs @ h1 task # map h1 ys) ! length (map h1 xs) = h1 task"
    by (rule nth_append_length)
  then have nth: "map h1 ins1 ! length xs = h1 task" by (simp add: sp(1))
  have rm: "splice_remove (length xs) (map h1 ins1) = map h1 rem"
    by (simp only: splice_remove_map sp splice_remove_middle)
  have reins: "splice_insert i (h1 task) (map h1 rem) = map h1 srt"
    unfolding splice_insert_map rem_def task_def by (simp only: splice_same[OF il])
  have ops: "bulkOps clock' (map h1 srt) = bulkOps clock' srt"
    by (rule bulkOps_map_ids) (simp add: h1_def)
  have f2: "findOne T pid (Task db1) = Some (h1 x)"
    by (simp add: t1 findOne_map f1 h1_def)
  have t2: "Task db2 = map h2 (Task db1)"
    and r2: "r2 = Inr (findById T (map h2 (Task db1)))"
    using m2 p p1 f2 s1 fi nth rm reins ops
    by (auto simp: reorder_def reorder_same_column_def Let_def bulkWrite_map[OF d1] h2_def)
  have r2': "r2 = Inr (Some (h2 (h1 task)))"
    by (simp add: r2 t1 findById_map fb h1_def h2_def)
  have "map (\<lambda>t. order (h2 t)) srt = map int [0..<length srt]"
    unfolding h2_def by (rule renumbered[OF di])
  also have "\<dots> = map order srt"
    using dn by (simp add: dense_def srt_def find_sorted_def)
  finally have keep: "\<forall>t\<in>set srt. order (h2 t) = order t" by (simp only: map_eq_conv)
  have same_set: "set ins1 = set srt"
    using mi by (metis mset_eq_setD mset_sort srt_def find_sorted_def)
  have "untimed (h2 (h1 t)) = untimed t" if t: "t \<in> set (Task db)" for t
  proof (cases "t \<in> set srt")
    case True
    have o: "order (h2 (h1 t)) = order t"
    proof -
      from True obtain k where k: "k < length srt" "srt ! k = t" by (auto simp: in_set_conv_nth)
      have dd: "distinct (map filter_id (bulkOps clock' srt))"
        using di by (simp only: bulkOps_ids)
      have mm: "bulkOps clock' srt ! k \<in> set (bulkOps clock' srt)" using k by simp
      have ee: "filter_id (bulkOps clock' srt ! k) = tid (h1 t)"
        using k by (simp add: bulkOps_nth h1_def)
      have "order (h2 (h1 t)) = set_order (bulkOps clock' srt ! k)"
        unfolding h2_def by (rule apply_ops_order[OF dd mm ee])
      also have "\<dots> = int k" using k by (simp add: bulkOps_nth)
      also have "\<dots> = order t"
      proof -
        have "map order srt ! k = map int [0..<length srt] ! k"
          using dn by (simp add: dense_def srt_def find_sorted_def)
        then show ?thesis using k by simp
      qed
      finally show ?thesis .
    qed
    have "untimed (h2 (h1 t)) = untimed ((h1 t)\<lparr>order := order (h2 (h1 t))\<rparr>)"
      unfolding h2_def by (rule apply_ops_untimed)
    also have "\<dots> = untimed ((h1 t)\<lparr>order := order t\<rparr>)" by (simp only: o)
    also have "\<dots> = untimed (t\<lparr>order := order t\<rparr>)"
      unfolding h1_def by (rule apply_ops_untimed_order)
    finally show ?thesis by simp
  next
    case False
    have out: "tid t \<notin> tid ` set srt"
    proof
      assume "tid t \<in> tid ` set srt"
      then obtain c where c: "c \<in> set srt" "tid c = tid t" by auto
      from c(1) have "c \<in> set (Task db)" by (simp add: srt_def column_member)
      from same_id_same_task[OF d this t c(2)] c(1) False show False by simp
    qed
    have "tid t \<notin> filter_id ` set (bulkOps clock ins1)"
      using out same_set by (metis bulkOps_ids set_map)
    then have a: "h1 t = t" unfolding h1_def by (rule apply_ops_other)
    have "tid t \<notin> filter_id ` set (bulkOps clock' srt)"
      using out by (metis bulkOps_ids set_map)
    then have "h2 t = t" unfolding h2_def by (rule apply_ops_other)
    with a show ?thesis by simp
  qed
  then have "map untimed (Task db2) = map untimed (Task db)"
    by (simp add: t2 t1)
  with r1' r2' show ?thesis by simp
qed

lemma cross_column_round_trip:
  assumes d: "distinct (map tid (Task db))"
    and p: "pid \<in> set (Project db)"
    and dn: "dense pid A (Task db)"
    and i: "findIndex (\<lambda>t. tid t = T) (find_sorted pid A (Task db)) = Some i"
    and ne: "A \<noteq> B"
    and m1: "reorder clock pid \<lparr>taskId = T, sourceStatus = A, destinationStatus = B,
                                 sourceIndex = i, destinationIndex = j\<rparr> db = (r1, db1)"
    and m2: "reorder clock' pid \<lparr>taskId = T, sourceStatus = B, destinationStatus = A,
                                  sourceIndex = j, destinationIndex = i\<rparr> db1 = (r2, db2)"
  shows "(\<exists>t1 t2. r1 = Inr (Some t1) \<and> r2 = Inr (Some t2))
         \<and> map untimed (Task db2) = map untimed (Task db)
         \<and> (\<forall>st. map untimed (find_sorted pid st (Task db2))
                   = map untimed (find_sorted pid st (Task db)))"
proof -
  define q1 where "q1 = \<lparr>taskId = T, sourceStatus = A, destinationStatus = B,
                          sourceIndex = i, destinationIndex = j\<rparr>"
  define q2 where "q2 = \<lparr>taskId = T, sourceStatus = B, destinationStatus = A,
                          sourceIndex = j, destinationIndex = i\<rparr>"
  define srt where "srt = find_sorted pid A (Task db)"
  define task where "task = srt ! i"
  have q1s [simp]: "taskId q1 = T" "sourceStatus q1 = A" "destinationStatus q1 = B"
    "destinationIndex q1 = j" by (simp_all add: q1_def)
  have q2s [simp]: "taskId q2 = T" "sourceStatus q2 = B" "destinationStatus q2 = A"
    "destinationIndex q2 = i" by (simp_all add: q2_def)
  from findIndex_Some[OF i] have il: "i < length srt" and ii: "tid task = T"
    by (simp_all add: srt_def task_def)
  from il have ms: "task \<in> set srt" by (simp add: task_def)
  then have tk: "task \<in> set (Task db)" "projectId task = pid" "status task = A"
    by (simp_all add: srt_def column_member)
  have "map order srt ! i = map int [0..<length (column pid A (Task db))] ! i"
    using dn by (simp add: dense_def srt_def)
  then have ot: "order task = int i"
    using il by (simp add: task_def srt_def find_sorted_def)
  have f1: "findOne T pid (Task db) = Some task"
  proof -
    from tk ii have "findOne T pid (Task db) \<noteq> None"
      by (auto simp: findOne_def find_None_iff)
    then obtain x where x: "findOne T pid (Task db) = Some x" by auto
    from findOne_Some[OF x] have "x \<in> set (Task db)" "tid x = T" by simp_all
    from same_id_same_task[OF d this(1) tk(1)] this(2) ii x show ?thesis by simp
  qed
  define h1 where "h1 = moved clock pid q1 task"
  have c1: "reorder_cross_column clock pid q1 task db = (r1, db1)"
    using m1 p f1 ne by (simp add: reorder_def q1_def)
  from cross_column_result[OF d c1]
  have t1: "Task db1 = map h1 (Task db)" and p1: "Project db1 = Project db"
    and r1: "r1 = Inr (findById T (Task db1))" by (simp_all add: h1_def)
  have d1: "distinct (map tid (Task db1))"
    using d by (simp add: t1 h1_def comp_def)
  define task' where "task' = h1 task"
  have task'_eq: "task' = task\<lparr>status := B, order := int j, updatedAt := clock 0\<rparr>"
    unfolding task'_def h1_def using moved_task[of q1 task clock pid task] ne ii by simp
  have f2: "findOne T pid (Task db1) = Some task'"
    by (simp add: t1 h1_def findOne_map f1 task'_def)
  define h2 where "h2 = moved clock' pid q2 task'"
  have c2: "reorder_cross_column clock' pid q2 task' db1 = (r2, db2)"
    using m2 p p1 f2 ne by (simp add: reorder_def q2_def)
  from cross_column_result[OF d1 c2]
  have t2: "Task db2 = map h2 (Task db1)"
    and r2: "r2 = Inr (findById T (Task db2))" by (simp_all add: h2_def)
  have fb: "findById T (Task db) = Some task"
    using find_unique[OF d tk(1)] ii by simp
  have r1': "r1 = Inr (Some (h1 task))"
    by (simp add: r1 t1 h1_def findById_map fb)
  have r2': "r2 = Inr (Some (h2 (h1 task)))"
    by (simp add: r2 t2 t1 h1_def h2_def findById_map fb)
  have rt: "untimed (h2 (h1 t)) = untimed t" if t: "t \<in> set (Task db)" for t
  proof (cases "tid t = T")
    case True
    with same_id_same_task[OF d t tk(1)] ii have tt: "t = task" by simp
    have "h2 task' = task'\<lparr>status := A, order := int i, updatedAt := clock' 0\<rparr>"
      unfolding h2_def using moved_task[of q2 task' clock' pid task'] ne ii
      by (simp add: task'_eq)
    then show ?thesis using tt tk(3) ot by (simp add: task'_def[symmetric] task'_eq untimed_def)
  next
    case False
    have o1: "h1 t = (if in_column pid A t \<and> order t > int i
                      then t\<lparr>order := order t - 1, updatedAt := clock 1\<rparr>
                      else if in_column pid B t \<and> order t \<ge> int j
                      then t\<lparr>order := order t + 1, updatedAt := clock 2\<rparr> else t)"
      unfolding h1_def using moved_other[of t q1 clock pid task] False ne ot by simp
    have o2: "h2 u = (if in_column pid B u \<and> order u > int j
                      then u\<lparr>order := order u - 1, updatedAt := clock' 1\<rparr>
                      else if in_column pid A u \<and> order u \<ge> int i
                      then u\<lparr>order := order u + 1, updatedAt := clock' 2\<rparr> else u)"
      if "tid u \<noteq> T" for u
      unfolding h2_def using moved_other[of u q2 clock' pid task'] that ne
      by (simp add: task'_eq)
    have uniq: "order t \<noteq> int i" if "in_column pid A t"
    proof
      assume e: "order t = int i"
      from that t have "t \<in> set (column pid A (Task db))" by (simp add: column_in_column)
      moreover from ms have "task \<in> set (column pid A (Task db))"
        by (simp add: srt_def find_sorted_def)
      ultimately have "t = task" using dense_unique_order[OF dn] e ot by simp
      with False ii show False by simp
    qed
    consider (a) "in_column pid A t" "order t > int i"
      | (b) "in_column pid A t" "order t < int i"
      | (c) "in_column pid B t" "order t \<ge> int j"
      | (d) "in_column pid B t" "order t < int j"
      | (e) "\<not> in_column pid A t" "\<not> in_column pid B t"
      using uniq by fastforce
    then show ?thesis
    proof cases
      case a
      then have u: "h1 t = t\<lparr>order := order t - 1, updatedAt := clock 1\<rparr>" by (simp add: o1)
      have "tid (t\<lparr>order := order t - 1, updatedAt := clock 1\<rparr>) \<noteq> T" using False by simp
      from o2[OF this] a ne show ?thesis by (simp add: u in_column_def untimed_def)
    next
      case b
      with ne have u: "h1 t = t" by (auto simp: o1 in_column_def)
      from o2[OF False] b ne show ?thesis by (simp add: u in_column_def)
    next
      case c
      with ne have u: "h1 t = t\<lparr>order := order t + 1, updatedAt := clock 2\<rparr>"
        by (auto simp: o1 in_column_def)
      have "tid (t\<lparr>order := order t + 1, updatedAt := clock 2\<rparr>) \<noteq> T" using False by simp
      from o2[OF this] c ne show ?thesis by (simp add: u in_column_def untimed_def)
    next
      case d
      with ne have u: "h1 t = t" by (auto simp: o1 in_column_def)
      from o2[OF False] d ne show ?thesis by (simp add: u in_column_def)
    next
      case e
      then have u: "h1 t = t" by (simp add: o1)
      from o2[OF False] e show ?thesis by (simp add: u)
    qed
  qed
  then have all: "map untimed (Task db2) = map untimed (Task db)"
    by (simp add: t2 t1)
  from find_sorted_untimed_eq[OF all] all r1' r2' show ?thesis by simp
qed

section \<open>The in-column branch clamps the destination index\<close>

lemma in_column_index_clamped:
  assumes d: "distinct (map tid (Task db))"
    and ok: "reorder clock pid r db = (Inr resp, db')"
    and e: "sourceStatus r = destinationStatus r"
    and k: "length (column pid (destinationStatus r) (Task db)) \<le> destinationIndex r"
  shows "\<exists>t. resp = Some t \<and> tid t = taskId r
            \<and> order t = int (length (column pid (destinationStatus r) (Task db'))) - 1"
proof -
  define srt where "srt = find_sorted pid (sourceStatus r) (Task db)"
  from reorder_success[OF ok] e have "reorder_same_column clock pid r db = (Inr resp, db')"
    by auto
  from same_column_result[OF d this] obtain i ins where
    il: "i < length srt" and ii: "tid (srt ! i) = taskId r"
    and ins: "ins = splice_insert (destinationIndex r) (srt ! i) (splice_remove i srt)"
    and t: "Task db' = map (apply_ops (clock (length ins - 1)) (bulkOps clock ins)) (Task db)"
    and rs: "resp = findById (taskId r) (Task db')"
    unfolding srt_def by blast
  define h where "h = apply_ops (clock (length ins - 1)) (bulkOps clock ins)"
  have n: "length srt = length (column pid (destinationStatus r) (Task db))"
    by (simp add: srt_def find_sorted_def e)
  have lr: "length (splice_remove i srt) = length srt - 1"
    using il by (simp add: splice_remove_def)
  with k n have "length (splice_remove i srt) \<le> destinationIndex r" by simp
  then have app: "ins = splice_remove i srt @ [srt ! i]"
    by (simp add: ins splice_insert_def)
  then have li: "length ins = length srt" using lr il by simp
  have last: "ins ! (length srt - 1) = srt ! i"
    using app lr by (metis nth_append_length)
  from il have "srt ! i \<in> set srt" by simp
  then have m: "srt ! i \<in> set (Task db)" by (simp add: srt_def column_member)
  from find_unique[OF d m] ii have fb: "findById (taskId r) (Task db) = Some (srt ! i)" by simp
  have resp: "resp = Some (h (srt ! i))"
    by (simp add: rs t findById_map fb h_def)
  have mi: "mset ins = mset srt"
    unfolding ins by (rule mset_splice[OF il])
  have "distinct (map tid srt)" unfolding srt_def by (rule distinct_sorted_ids[OF d])
  moreover have "mset (map tid ins) = mset (map tid srt)" using mi by simp
  ultimately have di: "distinct (map tid ins)" by (metis mset_eq_imp_distinct_iff)
  have dd: "distinct (map filter_id (bulkOps clock ins))" using di by (simp only: bulkOps_ids)
  have kk: "length srt - 1 < length ins" using li il by simp
  have mm: "bulkOps clock ins ! (length srt - 1) \<in> set (bulkOps clock ins)" using kk by simp
  have ee: "filter_id (bulkOps clock ins ! (length srt - 1)) = tid (srt ! i)"
    using kk last by (simp add: bulkOps_nth)
  have "order (h (srt ! i)) = set_order (bulkOps clock ins ! (length srt - 1))"
    unfolding h_def by (rule apply_ops_order[OF dd mm ee])
  also have "\<dots> = int (length srt - 1)" using kk by (simp add: bulkOps_nth)
  also have "\<dots> = int (length srt) - 1" using il by simp
  finally have o: "order (h (srt ! i)) = int (length srt) - 1" .
  have "column pid (destinationStatus r) (Task db') = map h (column pid (destinationStatus r) (Task db))"
    by (simp add: t column_def filter_map comp_def h_def)
  then have "length (column pid (destinationStatus r) (Task db')) = length srt"
    using n by simp
  with o resp ii show ?thesis by (simp add: h_def)
qed

section \<open>What the route keeps when the request is sound\<close>

text \<open>
  A successful move whose \<open>sourceStatus\<close> is the column the task is in, applied to a
  project with unique task ids whose three columns are dense, leaves the three columns
  dense: an in-column move for every destination index, a cross-column move for every
  destination index up to the length of the destination column.
\<close>

lemma move_keeps_columns_dense:
  assumes d: "distinct (map tid (Task db))"
    and dn: "dense_project pid (Task db)"
    and f: "findOne (taskId r) pid (Task db) = Some task"
    and s: "status task = sourceStatus r"
    and k: "sourceStatus r = destinationStatus r
            \<or> destinationIndex r \<le> length (column pid (destinationStatus r) (Task db))"
    and ok: "reorder clock pid r db = (Inr resp, db')"
  shows "dense_project pid (Task db')"
proof -
  have all: "dense pid st (Task db)" for st
    using dn by (cases st) (simp_all add: dense_project_def)
  have "dense pid st (Task db')" for st
  proof (cases "sourceStatus r = destinationStatus r")
    case True
    with reorder_success[OF ok] have "reorder_same_column clock pid r db = (Inr resp, db')" by auto
    from same_column_result[OF d this] obtain i ins where
      i: "i < length (find_sorted pid (sourceStatus r) (Task db))"
      and ins: "ins = splice_insert (destinationIndex r) (find_sorted pid (sourceStatus r) (Task db) ! i)
                      (splice_remove i (find_sorted pid (sourceStatus r) (Task db)))"
      and t: "Task db' = map (apply_ops (clock (length ins - 1)) (bulkOps clock ins)) (Task db)" by blast
    have "st = sourceStatus r \<or> dense pid st (Task db)" using all by simp
    from same_column_dense_col[OF d i ins this] show ?thesis by (simp only: t)
  next
    case False
    with reorder_success[OF ok] f have "reorder_cross_column clock pid r task db = (Inr resp, db')"
      by auto
    from cross_column_result[OF d this] have t: "Task db' = map (moved clock pid r task) (Task db)"
      by simp
    from k False have k': "destinationIndex r \<le> length (column pid (destinationStatus r) (Task db))"
      by simp
    from cross_column_dense_col[OF d f s False k' all] show ?thesis by (simp only: t)
  qed
  then show ?thesis by (simp add: dense_project_def)
qed

lemma move_keeps_columns_dense_example:
  "distinct (map tid (Task fixture))
   \<and> dense_project ''p'' (Task fixture)
   \<and> findOne ''T1'' ''p'' (Task fixture) = Some (mk ''T1'' Todo 0)
   \<and> destinationIndex (req ''T1'' Todo Inprogress 0)
        \<le> length (column ''p'' Inprogress (Task fixture))
   \<and> fst (reorder tick ''p'' (req ''T1'' Todo Inprogress 0) fixture)
        = Inr (Some ((mk ''T1'' Inprogress 0)\<lparr>updatedAt := 100\<rparr>))
   \<and> dense_project ''p'' (Task (snd (reorder tick ''p'' (req ''T1'' Todo Inprogress 0) fixture)))"
proof -
  have d: "distinct (map tid (Task fixture))"
    by (simp add: scenario_defs)
  have dn: "dense_project ''p'' (Task fixture)"
    by (simp add: dense_project_def dense_def model_defs scenario_defs)
  have f: "findOne (taskId (req ''T1'' Todo Inprogress 0)) ''p'' (Task fixture)
           = Some (mk ''T1'' Todo 0)"
    by (simp add: model_defs scenario_defs)
  have s: "status (mk ''T1'' Todo 0) = sourceStatus (req ''T1'' Todo Inprogress 0)"
    by (simp add: scenario_defs)
  have k: "sourceStatus (req ''T1'' Todo Inprogress 0) = destinationStatus (req ''T1'' Todo Inprogress 0)
           \<or> destinationIndex (req ''T1'' Todo Inprogress 0)
               \<le> length (column ''p'' (destinationStatus (req ''T1'' Todo Inprogress 0)) (Task fixture))"
    by (simp add: model_defs scenario_defs)
  have ok: "reorder tick ''p'' (req ''T1'' Todo Inprogress 0) fixture
            = (Inr (Some ((mk ''T1'' Inprogress 0)\<lparr>updatedAt := 100\<rparr>)),
               snd (reorder tick ''p'' (req ''T1'' Todo Inprogress 0) fixture))"
    by (simp add: model_defs scenario_defs)
  have k': "destinationIndex (req ''T1'' Todo Inprogress 0)
             \<le> length (column ''p'' Inprogress (Task fixture))"
    by (simp add: model_defs scenario_defs)
  have f': "findOne ''T1'' ''p'' (Task fixture) = Some (mk ''T1'' Todo 0)"
    using f by (simp add: scenario_defs)
  have r: "fst (reorder tick ''p'' (req ''T1'' Todo Inprogress 0) fixture)
           = Inr (Some ((mk ''T1'' Inprogress 0)\<lparr>updatedAt := 100\<rparr>))"
    using ok by (metis fst_conv)
  from move_keeps_columns_dense [OF d dn f s k ok] d dn f' k' r show ?thesis
    by simp
qed

text \<open>
  The in-column branch notices a task that is not in the column the request names: it
  answers \<open>REORDER_ERROR\<close> and leaves the database as it was.
\<close>

lemma stale_in_column_move_rejected:
  assumes d: "distinct (map tid (Task db))"
    and p: "pid \<in> set (Project db)"
    and f: "findOne (taskId r) pid (Task db) = Some task"
    and s: "status task \<noteq> sourceStatus r"
    and e: "destinationStatus r = sourceStatus r"
  shows "reorder clock pid r db = (Inl REORDER_ERROR, db)"
proof -
  from findOne_Some[OF f] have tk: "task \<in> set (Task db)" "tid task = taskId r" by simp_all
  have "findIndex (\<lambda>t. tid t = taskId r) (find_sorted pid (sourceStatus r) (Task db)) = None"
    unfolding findIndex_None
  proof
    fix x assume "x \<in> set (find_sorted pid (sourceStatus r) (Task db))"
    then have x: "x \<in> set (Task db)" "status x = sourceStatus r" by (simp_all add: column_member)
    show "tid x \<noteq> taskId r"
    proof
      assume "tid x = taskId r"
      with same_id_same_task[OF d x(1) tk(1)] tk(2) have "x = task" by simp
      with x(2) s show False by simp
    qed
  qed
  then show ?thesis using p f e by (simp add: reorder_def reorder_same_column_def)
qed

lemma stale_in_column_move_rejected_example:
  "distinct (map tid (Task fixture))
   \<and> ''p'' \<in> set (Project fixture)
   \<and> findOne ''T1'' ''p'' (Task fixture) = Some (mk ''T1'' Todo 0)
   \<and> reorder tick ''p'' (req ''T1'' Inprogress Inprogress 0) fixture = (Inl REORDER_ERROR, fixture)"
proof -
  have d: "distinct (map tid (Task fixture))"
    by (simp add: scenario_defs)
  have p: "''p'' \<in> set (Project fixture)"
    by (simp add: scenario_defs)
  have f: "findOne (taskId (req ''T1'' Inprogress Inprogress 0)) ''p'' (Task fixture)
           = Some (mk ''T1'' Todo 0)"
    by (simp add: model_defs scenario_defs)
  have s: "status (mk ''T1'' Todo 0) \<noteq> sourceStatus (req ''T1'' Inprogress Inprogress 0)"
    by (simp add: scenario_defs)
  have e: "destinationStatus (req ''T1'' Inprogress Inprogress 0)
           = sourceStatus (req ''T1'' Inprogress Inprogress 0)"
    by (simp add: scenario_defs)
  have f': "findOne ''T1'' ''p'' (Task fixture) = Some (mk ''T1'' Todo 0)"
    using f by (simp add: scenario_defs)
  from stale_in_column_move_rejected [OF d p f s e, of tick] d p f' show ?thesis
    by simp
qed

section \<open>The claims\<close>

subsection \<open>C1: density after a move\<close>

text \<open>
  C1. The claim asks that every successful move leaves dense columns. The route loses
  density on two requests it accepts, both on the dense fixture. A cross-column move to
  index 5 of the empty done column (the index is stored as it came, see C2) succeeds and
  leaves done with the single order 5. A cross-column move that names inprogress as the
  source of T1, which is in todo (the branch never compares the task's column with the
  source, see C3), succeeds and leaves todo with the single order 1.
\<close>

theorem C1_density_lost_after_move:
  "dense_project ''p'' (Task fixture)
   \<and> fst (reorder tick ''p'' (req ''T1'' Todo Done 5) fixture)
        = Inr (Some ((mk ''T1'' Done 5)\<lparr>updatedAt := 100\<rparr>))
   \<and> map order (find_sorted ''p'' Done
        (Task (snd (reorder tick ''p'' (req ''T1'' Todo Done 5) fixture)))) = [5]
   \<and> \<not> dense ''p'' Done (Task (snd (reorder tick ''p'' (req ''T1'' Todo Done 5) fixture)))
   \<and> fst (reorder tick ''p'' (req ''T1'' Inprogress Done 0) fixture)
        = Inr (Some ((mk ''T1'' Done 0)\<lparr>updatedAt := 100\<rparr>))
   \<and> map order (find_sorted ''p'' Todo
        (Task (snd (reorder tick ''p'' (req ''T1'' Inprogress Done 0) fixture)))) = [1]
   \<and> \<not> dense ''p'' Todo (Task (snd (reorder tick ''p'' (req ''T1'' Inprogress Done 0) fixture)))"
  by (simp add: dense_project_def dense_def model_defs scenario_defs)

subsection \<open>C2: a destination index beyond the end\<close>

text \<open>
  C2. The claim asks that a destination index beyond the end of the destination column
  appends. The cross-column branch stores the index as it came: on the fixture, moving T1
  from todo to index 5 of the empty done column leaves done holding T1 alone with order 5,
  where the final length minus one is 0.
\<close>

theorem C2_cross_column_index_not_clamped: "map (\<lambda>t. (tid t, order t))
     (find_sorted ''p'' Done (Task (snd (reorder tick ''p'' (req ''T1'' Todo Done 5) fixture))))
   = [(''T1'', 5)]"
  by (simp add: model_defs scenario_defs)

subsection \<open>C3: a stale source column\<close>

text \<open>
  C3. The claim asks that a request whose \<open>sourceStatus\<close> is not the task's column fails
  and writes nothing. The cross-column branch accepts it and writes. With T1 in todo and
  two tasks in progress, the request that names inprogress as the source of T1 answers with
  T1 moved to done and closes a gap in inprogress that was never there, leaving it two tasks
  of order 0. On the fixture, the cross-column move of T1 from todo to index 0 of
  inprogress, sent a second time after it was applied (as the client's retry after a timeout
  does), is answered with success again and makes room in inprogress once more, leaving it
  the orders 0 and 2.
\<close>

theorem C3_stale_cross_column_move_accepted:
  "findOne ''T1'' ''p'' (Task crowded) = Some (mk ''T1'' Todo 0)
   \<and> map_sum id (map_option place)
         (fst (reorder tick ''p'' (req ''T1'' Inprogress Done 0) crowded))
        = Inr (Some (''T1'', Done, 0))
   \<and> map place (Task crowded)
        = [(''T1'', Todo, 0), (''T3'', Inprogress, 0), (''T4'', Inprogress, 1)]
   \<and> map place (Task (snd (reorder tick ''p'' (req ''T1'' Inprogress Done 0) crowded)))
        = [(''T1'', Done, 0), (''T3'', Inprogress, 0), (''T4'', Inprogress, 0)]
   \<and> map place (Task (snd (reorder tick ''p'' (req ''T1'' Todo Inprogress 0) fixture)))
        = [(''T1'', Inprogress, 0), (''T2'', Todo, 0), (''T3'', Inprogress, 1)]
   \<and> map_sum id (map_option place)
         (fst (reorder tick ''p'' (req ''T1'' Todo Inprogress 0)
            (snd (reorder tick ''p'' (req ''T1'' Todo Inprogress 0) fixture))))
        = Inr (Some (''T1'', Inprogress, 0))
   \<and> map place (Task (snd (reorder tick ''p'' (req ''T1'' Todo Inprogress 0)
         (snd (reorder tick ''p'' (req ''T1'' Todo Inprogress 0) fixture)))))
        = [(''T1'', Inprogress, 0), (''T2'', Todo, 0), (''T3'', Inprogress, 2)]"
  by (simp add: place_def model_defs scenario_defs)

subsection \<open>C4: the response of a move\<close>

text \<open>
  C4, amended. The success response of a move (in a collection with unique ids) carries one
  document: the moved task as \<open>findById\<close> loads it after the writes, in the project and in
  the destination column.
\<close>

theorem C4_response_is_the_moved_task:
  assumes d: "distinct (map tid (Task db))"
    and ok: "reorder clock pid r db = (Inr resp, db')"
  shows "\<exists>t. resp = Some t \<and> findById (taskId r) (Task db') = Some t \<and> tid t = taskId r
            \<and> projectId t = pid \<and> status t = destinationStatus r"
proof -
  from reorder_success[OF ok] obtain task where
    f: "findOne (taskId r) pid (Task db) = Some task"
    and br: "if sourceStatus r = destinationStatus r
         then reorder_same_column clock pid r db = (Inr resp, db')
         else reorder_cross_column clock pid r task db = (Inr resp, db')" by blast
  from findOne_Some[OF f] have tk: "task \<in> set (Task db)" "tid task = taskId r" "projectId task = pid"
    by simp_all
  from find_unique[OF d tk(1)] tk(2) have fb: "findById (taskId r) (Task db) = Some task" by simp
  show ?thesis
  proof (cases "sourceStatus r = destinationStatus r")
    case True
    with br have "reorder_same_column clock pid r db = (Inr resp, db')" by simp
    from same_column_result[OF d this] obtain i ins where
      i: "i < length (find_sorted pid (sourceStatus r) (Task db))"
      and c: "tid (find_sorted pid (sourceStatus r) (Task db) ! i) = taskId r"
      and t: "Task db' = map (apply_ops (clock (length ins - 1)) (bulkOps clock ins)) (Task db)"
      and rs: "resp = findById (taskId r) (Task db')" by blast
    from i have "find_sorted pid (sourceStatus r) (Task db) ! i \<in> set (find_sorted pid (sourceStatus r) (Task db))"
      by simp
    then have m: "find_sorted pid (sourceStatus r) (Task db) ! i \<in> set (Task db)"
      and st: "status (find_sorted pid (sourceStatus r) (Task db) ! i) = sourceStatus r"
      by (simp_all add: column_member)
    from same_id_same_task[OF d m tk(1)] c tk(2) st have "status task = sourceStatus r" by simp
    moreover have "resp = Some (apply_ops (clock (length ins - 1)) (bulkOps clock ins) task)"
      by (simp add: rs t findById_map fb)
    ultimately show ?thesis using True tk rs by simp
  next
    case False
    with br have "reorder_cross_column clock pid r task db = (Inr resp, db')" by simp
    from cross_column_result[OF d this]
    have t: "Task db' = map (moved clock pid r task) (Task db)"
      and rs: "resp = findById (taskId r) (Task db')" by simp_all
    have "resp = Some (moved clock pid r task task)"
      by (simp add: rs t findById_map fb)
    then show ?thesis using tk rs by (simp add: moved_task[OF False tk(2)])
  qed
qed

theorem C4_response_is_the_moved_task_witness:
  "distinct (map tid (Task fixture))
   \<and> fst (reorder tick ''p'' (req ''T1'' Todo Inprogress 0) fixture)
        = Inr (Some ((mk ''T1'' Inprogress 0)\<lparr>updatedAt := 100\<rparr>))
   \<and> (\<exists>t. Some ((mk ''T1'' Inprogress 0)\<lparr>updatedAt := 100\<rparr>) = Some t
          \<and> findById (taskId (req ''T1'' Todo Inprogress 0))
               (Task (snd (reorder tick ''p'' (req ''T1'' Todo Inprogress 0) fixture))) = Some t
          \<and> tid t = taskId (req ''T1'' Todo Inprogress 0) \<and> projectId t = ''p''
          \<and> status t = destinationStatus (req ''T1'' Todo Inprogress 0))"
proof -
  have d: "distinct (map tid (Task fixture))"
    by (simp add: scenario_defs)
  have ok: "reorder tick ''p'' (req ''T1'' Todo Inprogress 0) fixture
            = (Inr (Some ((mk ''T1'' Inprogress 0)\<lparr>updatedAt := 100\<rparr>)),
               snd (reorder tick ''p'' (req ''T1'' Todo Inprogress 0) fixture))"
    by (simp add: model_defs scenario_defs)
  have r: "fst (reorder tick ''p'' (req ''T1'' Todo Inprogress 0) fixture)
           = Inr (Some ((mk ''T1'' Inprogress 0)\<lparr>updatedAt := 100\<rparr>))"
    using ok by (metis fst_conv)
  from C4_response_is_the_moved_task [OF d ok] d r show ?thesis
    by blast
qed

text \<open>
  The claim as stated fails on the cross-column move of the route's tests: the response is
  T1 alone, while the destination column then holds T1 and T3 and the source column T2.
\<close>

theorem C4_response_lists_columns_counterexample: "fst (reorder tick ''p'' (req ''T1'' Todo Inprogress 0) fixture)
       = Inr (Some ((mk ''T1'' Inprogress 0)\<lparr>updatedAt := 100\<rparr>))
  \<and> find_sorted ''p'' Inprogress (Task (snd (reorder tick ''p'' (req ''T1'' Todo Inprogress 0) fixture)))
       = [(mk ''T1'' Inprogress 0)\<lparr>updatedAt := 100\<rparr>, (mk ''T3'' Inprogress 1)\<lparr>updatedAt := 102\<rparr>]
  \<and> find_sorted ''p'' Todo (Task (snd (reorder tick ''p'' (req ''T1'' Todo Inprogress 0) fixture)))
       = [(mk ''T2'' Todo 0)\<lparr>updatedAt := 101\<rparr>]"
  by (simp add: model_defs scenario_defs)

subsection \<open>C5: a move to the same position\<close>

text \<open>
  C5, amended. The client's drag handler detects a drop at the position the card came from:
  it leaves the task list as it was, clears the drag-in-progress flag and sends no request.
  The route has no such check. A request that names the task by its id as the database
  prints it, with the task's own
  column (dense, in a collection with unique ids) as source and destination and the task's
  own index, succeeds and writes every task of that column: each keeps its order and gets
  the time of the write as \<open>updatedAt\<close>. No other field and no other task changes.
\<close>

theorem C5_same_position:
  assumes "distinct (map tid (Task db))"
    and "pid \<in> set (Project db)"
    and "dense pid st (Task db)"
    and "findIndex (\<lambda>t. tid t = taskId r) (find_sorted pid st (Task db)) = Some i"
    and "sourceStatus r = st" and "destinationStatus r = st"
    and "destinationIndex r = i"
    and "destination result = Some (source result)"
  shows "handleDragEnd result a g b
           = \<lparr>optimistic = None, sent = None, final = b\<lparr>dragInProgress := False\<rparr>\<rparr>
         \<and> (\<exists>t. fst (reorder clock pid r db) = Inr (Some t))
         \<and> Task (snd (reorder clock pid r db))
             = map (\<lambda>t. if projectId t = pid \<and> status t = st
                         then t\<lparr>updatedAt := clock (length (column pid st (Task db)) - 1)\<rparr>
                         else t) (Task db)
         \<and> map untimed (Task (snd (reorder clock pid r db))) = map untimed (Task db)"
proof -
  from same_position_writes [OF assms(1-7)]
  have ok: "\<exists>t. fst (reorder clock pid r db) = Inr (Some t)"
    and w: "Task (snd (reorder clock pid r db))
             = map (\<lambda>t. if projectId t = pid \<and> status t = st
                         then t\<lparr>updatedAt := clock (length (column pid st (Task db)) - 1)\<rparr>
                         else t) (Task db)" by simp_all
  have "map untimed (Task (snd (reorder clock pid r db))) = map untimed (Task db)"
    unfolding w by (simp add: untimed_def)
  with ok w same_position_client [OF assms(8)] show ?thesis by simp
qed

text \<open>
  On the fixture: T1 is at index 0 of todo, the handler stops at the drop, and the route,
  sent the request all the same, writes the time 101 to T1 and T2 and nothing else.
\<close>

theorem C5_same_position_witness:
  "distinct (map tid (Task fixture))
   \<and> dense ''p'' Todo (Task fixture)
   \<and> findIndex (\<lambda>t. tid t = ''T1'') (find_sorted ''p'' Todo (Task fixture)) = Some 0
   \<and> handleDragEnd \<lparr>destination = Some \<lparr>droppableId = Todo, index = 0\<rparr>,
                     source = \<lparr>droppableId = Todo, index = 0\<rparr>, draggableId = ''T1''\<rparr>
        Rejected Rejected \<lparr>tasks = Task fixture, dragInProgress = True\<rparr>
        = \<lparr>optimistic = None, sent = None,
           final = \<lparr>tasks = Task fixture, dragInProgress = False\<rparr>\<rparr>
   \<and> Task (snd (reorder tick ''p'' (req ''T1'' Todo Todo 0) fixture))
        = [(mk ''T1'' Todo 0)\<lparr>updatedAt := 101\<rparr>, (mk ''T2'' Todo 1)\<lparr>updatedAt := 101\<rparr>,
           mk ''T3'' Inprogress 0]"
proof -
  have d: "distinct (map tid (Task fixture))"
    by (simp add: scenario_defs)
  have p: "''p'' \<in> set (Project fixture)"
    by (simp add: scenario_defs)
  have dn: "dense ''p'' Todo (Task fixture)"
    by (simp add: dense_def model_defs scenario_defs)
  have i: "findIndex (\<lambda>t. tid t = taskId (req ''T1'' Todo Todo 0))
             (find_sorted ''p'' Todo (Task fixture)) = Some 0"
    by (simp add: model_defs scenario_defs)
  have s: "sourceStatus (req ''T1'' Todo Todo 0) = Todo"
    and e: "destinationStatus (req ''T1'' Todo Todo 0) = Todo"
    and k: "destinationIndex (req ''T1'' Todo Todo 0) = 0"
    by (simp_all add: scenario_defs)
  have c: "destination \<lparr>destination = Some \<lparr>droppableId = Todo, index = 0\<rparr>,
                        source = \<lparr>droppableId = Todo, index = 0\<rparr>, draggableId = ''T1''\<rparr>
           = Some (source \<lparr>destination = Some \<lparr>droppableId = Todo, index = 0\<rparr>,
                        source = \<lparr>droppableId = Todo, index = 0\<rparr>, draggableId = ''T1''\<rparr>)"
    by simp
  have i': "findIndex (\<lambda>t. tid t = ''T1'') (find_sorted ''p'' Todo (Task fixture)) = Some 0"
    using i by (simp add: scenario_defs)
  have v: "map (\<lambda>t. if projectId t = ''p'' \<and> status t = Todo
                     then t\<lparr>updatedAt := tick (length (column ''p'' Todo (Task fixture)) - 1)\<rparr>
                     else t) (Task fixture)
           = [(mk ''T1'' Todo 0)\<lparr>updatedAt := 101\<rparr>, (mk ''T2'' Todo 1)\<lparr>updatedAt := 101\<rparr>,
              mk ''T3'' Inprogress 0]"
    by (simp add: model_defs scenario_defs)
  from C5_same_position [OF d p dn i s e k c, of Rejected Rejected
      "\<lparr>tasks = Task fixture, dragInProgress = True\<rparr>" tick] d dn i' v
  show ?thesis by simp
qed

text \<open>
  The claim as stated fails on the route: T1 is at index 0 of todo, the request moves it to
  index 0 of todo, and the route writes \<open>updatedAt\<close> of both tasks of the column.
\<close>

theorem C5_same_position_writes_counterexample:
  "findIndex (\<lambda>t. tid t = ''T1'') (find_sorted ''p'' Todo (Task fixture)) = Some 0
   \<and> map updatedAt (Task fixture) = [0, 0, 0]
   \<and> map updatedAt (Task (snd (reorder tick ''p'' (req ''T1'' Todo Todo 0) fixture)))
        = [101, 101, 0]"
  by (simp add: model_defs scenario_defs)

subsection \<open>C6: rollback\<close>

text \<open>
  C6. When the move fails (the reorder call or the reload that follows it is rejected), the
  handler leaves the component with exactly the task list it had when the drop arrived.
\<close>

theorem C6_failed_move_restores_snapshot: "reorderTasks = Rejected \<or> getTasks = Rejected \<Longrightarrow>
  tasks (final (handleDragEnd result reorderTasks getTasks b)) = tasks b"
  by (auto simp: handleDragEnd_def Let_def split: option.splits promise.splits)

text \<open>
  The rollback scenario: the snapshot is T1, T2, T3, the optimistic list T2, T3, T1, the
  call fails, and the list is T1, T2, T3 again.
\<close>

theorem C6_failed_move_restores_snapshot_witness:
  "optimistic (handleDragEnd drop1 Rejected (Resolved None) \<lparr>tasks = Task todo3, dragInProgress = True\<rparr>)
     = Some [mk ''T2'' Todo 1, mk ''T3'' Todo 2, mk ''T1'' Todo 0]
   \<and> tasks (final (handleDragEnd drop1 Rejected (Resolved None) \<lparr>tasks = Task todo3, dragInProgress = True\<rparr>))
     = [mk ''T1'' Todo 0, mk ''T2'' Todo 1, mk ''T3'' Todo 2]"
proof -
  have h: "(Rejected :: unit promise) = Rejected \<or> Resolved None = (Rejected :: task list option promise)" by simp
  have o: "optimistic (handleDragEnd drop1 Rejected (Resolved None) \<lparr>tasks = Task todo3, dragInProgress = True\<rparr>)
     = Some [mk ''T2'' Todo 1, mk ''T3'' Todo 2, mk ''T1'' Todo 0]"
    by (simp add: handleDragEnd_def drop1_def splice_remove_def Let_def scenario_defs)
  show ?thesis using C6_failed_move_restores_snapshot [OF h, of drop1 "\<lparr>tasks = Task todo3, dragInProgress = True\<rparr>"] o
    by (simp add: todo3_def)
qed

subsection \<open>C7: round trip\<close>

text \<open>
  C7. In a collection with unique ids, with column A dense and task T at index i of A, moving
  T from A to index j of column B and then back from B to index i of A succeeds twice and
  restores every task, and so the ordered list of every column (membership, sequence, order
  values), up to the last-modified timestamps. This holds for every j, and also when B is A.
\<close>

theorem C7_round_trip:
  assumes d: "distinct (map tid (Task db))"
    and p: "pid \<in> set (Project db)"
    and dn: "dense pid A (Task db)"
    and i: "findIndex (\<lambda>t. tid t = T) (find_sorted pid A (Task db)) = Some i"
    and m1: "reorder clock pid \<lparr>taskId = T, sourceStatus = A, destinationStatus = B,
                                 sourceIndex = i, destinationIndex = j\<rparr> db = (r1, db1)"
    and m2: "reorder clock' pid \<lparr>taskId = T, sourceStatus = B, destinationStatus = A,
                                  sourceIndex = j, destinationIndex = i\<rparr> db1 = (r2, db2)"
  shows "(\<exists>t1 t2. r1 = Inr (Some t1) \<and> r2 = Inr (Some t2))
         \<and> map untimed (Task db2) = map untimed (Task db)
         \<and> (\<forall>st. map untimed (find_sorted pid st (Task db2))
                   = map untimed (find_sorted pid st (Task db)))"
proof (cases "A = B")
  case True
  from same_column_round_trip [OF d p dn i m1 [unfolded True [symmetric]] m2 [unfolded True [symmetric]]]
  have ok: "\<exists>t1 t2. r1 = Inr (Some t1) \<and> r2 = Inr (Some t2)"
    and all: "map untimed (Task db2) = map untimed (Task db)" by simp_all
  from find_sorted_untimed_eq [OF all] ok all show ?thesis by simp
next
  case False
  from cross_column_round_trip [OF d p dn i False m1 m2] show ?thesis .
qed

theorem C7_round_trip_witness:
  "distinct (map tid (Task fixture))
   \<and> dense ''p'' Todo (Task fixture)
   \<and> findIndex (\<lambda>t. tid t = ''T1'') (find_sorted ''p'' Todo (Task fixture)) = Some 0
   \<and> Task (snd (reorder tick ''p'' (req ''T1'' Todo Inprogress 0) fixture))
        = [(mk ''T1'' Inprogress 0)\<lparr>updatedAt := 100\<rparr>, (mk ''T2'' Todo 0)\<lparr>updatedAt := 101\<rparr>,
           (mk ''T3'' Inprogress 1)\<lparr>updatedAt := 102\<rparr>]
   \<and> map untimed (Task (snd (reorder tick ''p'' (req ''T1'' Inprogress Todo 0)
        (snd (reorder tick ''p'' (req ''T1'' Todo Inprogress 0) fixture)))))
        = map untimed (Task fixture)"
proof -
  have d: "distinct (map tid (Task fixture))"
    by (simp add: scenario_defs)
  have p: "''p'' \<in> set (Project fixture)"
    by (simp add: scenario_defs)
  have dn: "dense ''p'' Todo (Task fixture)"
    by (simp add: dense_def model_defs scenario_defs)
  have i: "findIndex (\<lambda>t. tid t = ''T1'') (find_sorted ''p'' Todo (Task fixture)) = Some 0"
    by (simp add: model_defs scenario_defs)
  have m1: "reorder tick ''p'' \<lparr>taskId = ''T1'', sourceStatus = Todo, destinationStatus = Inprogress,
                                sourceIndex = 0, destinationIndex = 0\<rparr> fixture
            = (fst (reorder tick ''p'' (req ''T1'' Todo Inprogress 0) fixture),
               snd (reorder tick ''p'' (req ''T1'' Todo Inprogress 0) fixture))"
    by (simp add: req_def)
  have m2: "reorder tick ''p'' \<lparr>taskId = ''T1'', sourceStatus = Inprogress, destinationStatus = Todo,
                                sourceIndex = 0, destinationIndex = 0\<rparr>
              (snd (reorder tick ''p'' (req ''T1'' Todo Inprogress 0) fixture))
            = (fst (reorder tick ''p'' (req ''T1'' Inprogress Todo 0)
                 (snd (reorder tick ''p'' (req ''T1'' Todo Inprogress 0) fixture))),
               snd (reorder tick ''p'' (req ''T1'' Inprogress Todo 0)
                 (snd (reorder tick ''p'' (req ''T1'' Todo Inprogress 0) fixture))))"
    by (simp add: req_def)
  have s1: "Task (snd (reorder tick ''p'' (req ''T1'' Todo Inprogress 0) fixture))
        = [(mk ''T1'' Inprogress 0)\<lparr>updatedAt := 100\<rparr>, (mk ''T2'' Todo 0)\<lparr>updatedAt := 101\<rparr>,
           (mk ''T3'' Inprogress 1)\<lparr>updatedAt := 102\<rparr>]"
    by (simp add: model_defs scenario_defs)
  from C7_round_trip [OF d p dn i m1 m2] d dn i s1 show ?thesis
    by blast
qed

subsection \<open>C8: the in-column scenario\<close>

text \<open>
  C8. Column todo holds T1, T2, T3 with orders 0, 1, 2; moving T1 to destination index 2
  inside todo assigns T2 order 0, T3 order 1 and T1 order 2.
\<close>

theorem C8_in_column_scenario:
  "map (\<lambda>t. (tid t, order t))
     (find_sorted ''p'' Todo
        (Task (snd (reorder tick ''p'' (req ''T1'' Todo Todo 2) todo3))))
   = [(''T2'', 0), (''T3'', 1), (''T1'', 2)]"
  by (simp add: model_defs scenario_defs)

subsection \<open>C9: the order of a new task\<close>




subsection \<open>C10: what a move leaves alone\<close>

text \<open>
  C10, amended. Whatever its outcome, a move keeps the number of tasks, the project
  collection, and for every task its id, project, title, description and creation time: it
  writes nothing but \<open>status\<close>, \<open>order\<close> and \<open>updatedAt\<close>.
\<close>

theorem C10_move_frame: "map frame (Task (snd (reorder clock pid r db))) = map frame (Task db)
   \<and> length (Task (snd (reorder clock pid r db))) = length (Task db)
   \<and> Project (snd (reorder clock pid r db)) = Project db"
proof -
  have m: "map frame (Task (snd (reorder clock pid r db))) = map frame (Task db)"
    by (simp add: reorder_def reorder_same_column_def reorder_cross_column_def Let_def
        frame_bulkWrite frame_updateMany frame_update_first findByIdAndUpdate_def frame_def
        split: option.splits)
  have p: "Project (snd (reorder clock pid r db)) = Project db"
    by (simp add: reorder_def reorder_same_column_def reorder_cross_column_def Let_def
        split: option.splits)
  from m have "length (Task (snd (reorder clock pid r db))) = length (Task db)"
    by (rule map_eq_imp_length_eq)
  with m p show ?thesis by simp
qed

text \<open>
  The claim as stated fails on the in-column move of the route's tests: the move writes
  \<open>updatedAt\<close> of T1 and T2.
\<close>

theorem C10_only_column_and_order_counterexample: "map updatedAt (Task fixture) = [0, 0, 0]
  \<and> map updatedAt (Task (snd (reorder tick ''p'' (req ''T1'' Todo Todo 1) fixture))) = [101, 101, 0]"
  by (simp add: model_defs scenario_defs)

end
